theory Spec2Isabelle
  imports Main
begin

section \<open>JavaScript values\<close>

text \<open>
  The values that flow through \<^verbatim>\<open>parseq.js\<close>. A function value carries its arity (its
  \<^verbatim>\<open>length\<close> property) and a reference that identifies it; what a requestor does when it is
  called is looked up under that reference in the \<open>behaviour\<close> of the run. An array may have
  holes (\<open>None\<close>), as \<^verbatim>\<open>new Array(n)\<close> and the sparse \<^verbatim>\<open>results\<close> array do. An error report
  made by \<^verbatim>\<open>make_error\<close> carries its message and its \<^verbatim>\<open>evidence\<close>. Numbers are integers:
  fractional and non-finite numbers are not represented.
\<close>

datatype val =
    JUndefined
  | JBool bool
  | JNum int
  | JStr string
  | JFun nat nat
  | JArr "val option list"
  | JObj "(string \<times> val) list"
  | JError string val
  | JTypeError string

fun is_function :: "val \<Rightarrow> bool" where
  "is_function (JFun a r) = True"
| "is_function v = False"

fun is_boolean :: "val \<Rightarrow> bool" where
  "is_boolean (JBool b) = True"
| "is_boolean v = False"

text \<open>A result is either a thrown value (\<open>Inl\<close>) or a normal return (\<open>Inr\<close>).\<close>

definition then_do :: "('e + 'a) \<Rightarrow> ('a \<Rightarrow> 'e + 'b) \<Rightarrow> 'e + 'b" where
  "then_do r f = (case r of Inl e \<Rightarrow> Inl e | Inr a \<Rightarrow> f a)"

section \<open>Error reports and argument checks\<close>

definition make_error :: "string \<Rightarrow> string option \<Rightarrow> val \<Rightarrow> val" where
  "make_error factory_name reason evidence =
     JError (''parseq.'' @ factory_name @ (case reason of None \<Rightarrow> [] | Some r \<Rightarrow> '': '' @ r))
            evidence"

fun is_callback :: "val \<Rightarrow> bool" where
  "is_callback (JFun a r) = (a = 2)"
| "is_callback v = False"

definition check_callback :: "val \<Rightarrow> string \<Rightarrow> val + unit" where
  "check_callback callback factory_name =
     (if \<not> is_callback callback
      then Inl (make_error factory_name (Some ''Not a callback.'') callback)
      else Inr ())"

text \<open>
  The test \<^verbatim>\<open>some\<close> applies to an element of a requestor array; \<^verbatim>\<open>some\<close> skips holes.
\<close>

fun bad_requestor :: "val option \<Rightarrow> bool" where
  "bad_requestor None = False"
| "bad_requestor (Some (JFun a r)) = (a < 1 \<or> a > 2)"
| "bad_requestor (Some v) = True"

definition check_requestor_array :: "val \<Rightarrow> string \<Rightarrow> val + unit" where
  "check_requestor_array requestor_array factory_name =
     (case requestor_array of
        JArr xs \<Rightarrow>
          if length xs < 1 \<or> list_ex bad_requestor xs
          then Inl (make_error factory_name (Some ''Bad requestors array.'') requestor_array)
          else Inr ()
      | _ \<Rightarrow> Inl (make_error factory_name (Some ''Bad requestors array.'') requestor_array))"

section \<open>The coordinator\<close>

datatype factory = Fallback | Parallel | Race | Sequence

fun factory_string :: "factory \<Rightarrow> string" where
  "factory_string Fallback = ''fallback''"
| "factory_string Parallel = ''parallel''"
| "factory_string Race = ''race''"
| "factory_string Sequence = ''sequence''"

text \<open>
  What a requestor does at the moment it is called with the wrapping callback and a value:
  it returns (a cancel function, or anything else), or it throws. Its report through the
  callback arrives later, as an event of the run. The code of the caller runs outside the
  coordinator: a requestor that calls its callback before it returns, a cancel function
  that calls a callback while \<^verbatim>\<open>cancel\<close> is running, and a caller's callback that throws are
  not modelled.
\<close>

datatype outcome = Returns val | Throws val

text \<open>
  The arguments of \<^verbatim>\<open>run\<close> and the variables of the factory that the action and timeout
  closures read but never write.
\<close>

record config =
  factory_name :: factory
  requestor_array :: "val option list"
  initial_value :: val
  milliseconds :: val
  number_required :: nat
  behaviour :: "nat \<Rightarrow> val \<Rightarrow> outcome"

text \<open>
  The mutable variables of one invocation of a combinator's requestor, and what the host and
  the outside world have seen of it.
  \<^item> \<open>cancel_array\<close>, \<open>next_number\<close>, \<open>timer_id\<close>: the variables of \<^verbatim>\<open>run\<close>
    (\<open>None\<close> is \<^verbatim>\<open>undefined\<close>; \<open>timer_id\<close> tells whether the variable holds a timer).
  \<^item> \<open>number_live\<close>: for each requestor, whether the variable \<^verbatim>\<open>number\<close> of its
    \<^verbatim>\<open>start_requestor_callback\<close> closure exists and is still defined.
  \<^item> \<open>number_pending\<close>, \<open>number_pending_required_array\<close>, \<open>results\<close>, \<open>option\<close>,
    \<open>callback\<close>: the variables of the factory's requestor (\<^verbatim>\<open>option\<close> is written by
    \<^verbatim>\<open>parallel_timeout\<close>).
  \<^item> \<open>deferred\<close>: how many \<^verbatim>\<open>setTimeout(start_requestor, 0, initial_value)\<close> the host
    still has to run; \<open>timer_armed\<close>: whether the host's one-shot timer is still to fire.
  \<^item> \<open>launched\<close>: each call of a requestor, with its index and the value passed;
    \<open>cancelled\<close>: each call of a requestor's cancel function, with its index and the reason;
    \<open>called\<close>: each call of the caller's callback, with its two arguments;
    \<open>uncaught\<close>: the exceptions that left the coordinator's code.
\<close>

record state =
  cancel_array :: "val list option"
  next_number :: nat
  timer_id :: bool
  number_live :: "bool list"
  number_pending :: int
  number_pending_required_array :: int
  results :: "val option list"
  option :: val
  callback :: val
  deferred :: nat
  timer_armed :: bool
  launched :: "(nat \<times> val) list"
  cancelled :: "(nat \<times> val) list"
  called :: "(val \<times> val) list"
  uncaught :: "val list"

type_synonym result = "(val \<times> state) + state"

subsection \<open>cancel\<close>

definition cancel :: "config \<Rightarrow> val \<Rightarrow> state \<Rightarrow> state" where
  "cancel cfg reason0 s =
     (let reason = (if reason0 = JUndefined
                    then make_error (factory_string (factory_name cfg)) (Some ''Cancel.'') JUndefined
                    else reason0);
          s1 = (if timer_id s then s\<lparr>timer_armed := False, timer_id := False\<rparr> else s)
      in case cancel_array s1 of
           None \<Rightarrow> s1
         | Some arr \<Rightarrow>
             s1\<lparr>cancelled := cancelled s1 @
                    map (\<lambda>i. (i, reason)) (filter (\<lambda>i. is_function (arr ! i)) [0..<length arr]),
                cancel_array := None\<rparr>)"

subsection \<open>The caller's callback\<close>

text \<open>Calling the variable \<^verbatim>\<open>callback\<close> when it no longer holds a function throws.\<close>

definition invoke_callback :: "val \<Rightarrow> val \<Rightarrow> state \<Rightarrow> result" where
  "invoke_callback success error s =
     (if is_function (callback s)
      then Inr (s\<lparr>called := called s @ [(success, error)]\<rparr>)
      else Inl (JTypeError ''callback is not a function'', s))"

definition clear_callback :: "state \<Rightarrow> result" where
  "clear_callback s = Inr (s\<lparr>callback := JUndefined\<rparr>)"

subsection \<open>The action functions\<close>

definition fallback_action :: "config \<Rightarrow> val \<Rightarrow> val \<Rightarrow> nat \<Rightarrow> state \<Rightarrow> result" where
  "fallback_action cfg success error ignore s =
     then_do
       (let s1 = s\<lparr>number_pending := number_pending s - 1\<rparr>
        in if success \<noteq> JUndefined
           then then_do (invoke_callback success JUndefined (cancel cfg JUndefined s1)) clear_callback
           else Inr s1)
       (\<lambda>s2. if number_pending s2 < 1
             then then_do (invoke_callback JUndefined error (cancel cfg error s2)) clear_callback
             else Inr s2)"

definition race_action :: "config \<Rightarrow> val \<Rightarrow> val \<Rightarrow> nat \<Rightarrow> state \<Rightarrow> result" where
  "race_action cfg success error number s =
     then_do
       (let s1 = s\<lparr>number_pending := number_pending s - 1\<rparr>
        in if success \<noteq> JUndefined
           then then_do
                  (invoke_callback success JUndefined
                     (cancel cfg (make_error ''race'' (Some ''Loser.'') (JNum (int number))) s1))
                  clear_callback
           else Inr s1)
       (\<lambda>s2. if number_pending s2 < 1
             then then_do (invoke_callback JUndefined error (cancel cfg error s2)) clear_callback
             else Inr s2)"

definition sequence_action :: "config \<Rightarrow> val \<Rightarrow> val \<Rightarrow> nat \<Rightarrow> state \<Rightarrow> result" where
  "sequence_action cfg success error ignore s =
     (if callback s \<noteq> JUndefined
      then then_do
             (let s1 = s\<lparr>number_pending := number_pending s - 1\<rparr>
              in if success = JUndefined
                 then then_do (invoke_callback JUndefined error (cancel cfg error s1)) clear_callback
                 else Inr s1)
             (\<lambda>s2. if number_pending s2 < 1
                   then then_do (invoke_callback success JUndefined (cancel cfg JUndefined s2))
                          clear_callback
                   else Inr s2)
      else Inr s)"

text \<open>\<^verbatim>\<open>results[number] = success\<close> on a JavaScript array: writing beyond the end leaves holes.\<close>

definition array_set :: "val option list \<Rightarrow> nat \<Rightarrow> val \<Rightarrow> val option list" where
  "array_set xs i v =
     (if i < length xs then xs[i := Some v]
      else xs @ replicate (i - length xs) None @ [Some v])"

definition parallel_action :: "config \<Rightarrow> val \<Rightarrow> val \<Rightarrow> nat \<Rightarrow> state \<Rightarrow> result" where
  "parallel_action cfg success error number s =
     (let s1 = s\<lparr>results := array_set (results s) number success,
                 number_pending := number_pending s - 1\<rparr>;
          s2 = (if number < number_required cfg
                then s1\<lparr>number_pending_required_array := number_pending_required_array s1 - 1\<rparr>
                else s1)
      in if number < number_required cfg \<and> success = JUndefined
         then then_do (invoke_callback JUndefined error (cancel cfg error s2)) clear_callback
         else if number_pending s2 < 1
                 \<or> (option s2 = JUndefined \<and> number_pending_required_array s2 < 1)
         then then_do
                (invoke_callback (JArr (results s2)) JUndefined
                   (cancel cfg (make_error ''parallel'' (Some ''Optional.'') JUndefined) s2))
                clear_callback
         else Inr s2)"

fun action :: "config \<Rightarrow> val \<Rightarrow> val \<Rightarrow> nat \<Rightarrow> state \<Rightarrow> result" where
  "action cfg success error number s =
     (case factory_name cfg of
        Fallback \<Rightarrow> fallback_action cfg success error number s
      | Parallel \<Rightarrow> parallel_action cfg success error number s
      | Race \<Rightarrow> race_action cfg success error number s
      | Sequence \<Rightarrow> sequence_action cfg success error number s)"

declare action.simps [simp del]

subsection \<open>The timeout functions\<close>

definition fallback_timeout :: "config \<Rightarrow> state \<Rightarrow> result" where
  "fallback_timeout cfg s =
     (let error = make_error ''fallback'' (Some ''Timeout.'') (milliseconds cfg)
      in then_do (invoke_callback JUndefined error (cancel cfg error s)) clear_callback)"

definition race_timeout :: "config \<Rightarrow> state \<Rightarrow> result" where
  "race_timeout cfg s =
     (let error = make_error ''race'' (Some ''Timeout.'') (milliseconds cfg)
      in then_do (invoke_callback JUndefined error (cancel cfg error s)) clear_callback)"

definition sequence_timeout :: "config \<Rightarrow> state \<Rightarrow> result" where
  "sequence_timeout cfg s =
     (let error = make_error ''sequence'' (Some ''Timeout.'') (milliseconds cfg)
      in then_do (invoke_callback JUndefined error (cancel cfg error s)) clear_callback)"

definition parallel_timeout :: "config \<Rightarrow> state \<Rightarrow> result" where
  "parallel_timeout cfg s =
     (let reason = make_error ''parallel'' (Some ''Timeout.'') (milliseconds cfg)
      in if option s = JBool False
         then let s1 = s\<lparr>option := JUndefined\<rparr>
              in if number_pending_required_array s1 < 1
                 then invoke_callback (JArr (results s1)) JUndefined (cancel cfg reason s1)
                 else Inr s1
         else let s1 = cancel cfg reason s
              in then_do
                   (if number_pending_required_array s1 < 1
                    then invoke_callback (JArr (results s1)) JUndefined s1
                    else invoke_callback JUndefined reason s1)
                   clear_callback)"

fun timeout :: "config \<Rightarrow> state \<Rightarrow> result" where
  "timeout cfg s =
     (case factory_name cfg of
        Fallback \<Rightarrow> fallback_timeout cfg s
      | Parallel \<Rightarrow> parallel_timeout cfg s
      | Race \<Rightarrow> race_timeout cfg s
      | Sequence \<Rightarrow> sequence_timeout cfg s)"

declare timeout.simps [simp del]

subsection \<open>start\_requestor and its callback\<close>

text \<open>
  Calling element \<open>number\<close> of the requestor array. Calling a hole or a value that is not a
  function throws inside the \<^verbatim>\<open>try\<close>, like a requestor that throws.
\<close>

fun call_requestor :: "config \<Rightarrow> val option \<Rightarrow> val \<Rightarrow> outcome" where
  "call_requestor cfg (Some (JFun a r)) v = behaviour cfg r v"
| "call_requestor cfg x v = Throws (JTypeError ''requestor is not a function'')"

text \<open>
  The part of the state that only \<^verbatim>\<open>start_requestor\<close> and its callback write. No action
  touches it, which is what makes the recursion of \<^verbatim>\<open>start_requestor\<close> through the
  \<^verbatim>\<open>catch\<close> branch end: every call claims a new index.
\<close>

definition launch_part :: "state \<Rightarrow> nat \<times> bool list \<times> nat \<times> (nat \<times> val) list" where
  "launch_part s = (next_number s, number_live s, deferred s, launched s)"

definition result_state :: "result \<Rightarrow> state" where
  "result_state r = (case r of Inl (e, s) \<Rightarrow> s | Inr s \<Rightarrow> s)"

lemma result_state_simps [simp]:
  "result_state (Inl (e, s)) = s" "result_state (Inr s) = s"
  by (simp_all add: result_state_def)

lemma launch_part_cancel [simp]: "launch_part (cancel cfg reason s) = launch_part s"
  by (simp add: cancel_def launch_part_def Let_def split: option.splits)

lemma launch_part_invoke_callback [simp]:
  "launch_part (result_state (invoke_callback a b s)) = launch_part s"
  by (simp add: invoke_callback_def launch_part_def)

lemma launch_part_clear_callback [simp]:
  "launch_part (result_state (clear_callback s)) = launch_part s"
  by (simp add: clear_callback_def launch_part_def)

lemma launch_part_then_do:
  "(\<And>s'. launch_part (result_state (f s')) = launch_part s') \<Longrightarrow>
   launch_part (result_state (then_do r f)) = launch_part (result_state r)"
  by (cases r) (auto simp: then_do_def)

lemma launch_part_update [simp]:
  "launch_part (s\<lparr>number_pending := k\<rparr>) = launch_part s"
  "launch_part (s\<lparr>number_pending_required_array := k\<rparr>) = launch_part s"
  "launch_part (s\<lparr>results := rs\<rparr>) = launch_part s"
  "launch_part (s\<lparr>option := v\<rparr>) = launch_part s"
  "launch_part (s\<lparr>callback := v\<rparr>) = launch_part s"
  "launch_part (s\<lparr>cancel_array := c\<rparr>) = launch_part s"
  "launch_part (s\<lparr>timer_armed := b\<rparr>) = launch_part s"
  "launch_part (s\<lparr>uncaught := u\<rparr>) = launch_part s"
  by (simp_all add: launch_part_def)

lemma fallback_action_launch_part:
  "launch_part (result_state (fallback_action cfg a b n s)) = launch_part s"
  by (simp add: fallback_action_def Let_def launch_part_then_do)

lemma race_action_launch_part:
  "launch_part (result_state (race_action cfg a b n s)) = launch_part s"
  by (simp add: race_action_def Let_def launch_part_then_do)

lemma sequence_action_launch_part:
  "launch_part (result_state (sequence_action cfg a b n s)) = launch_part s"
  by (simp add: sequence_action_def Let_def launch_part_then_do)

lemma parallel_action_launch_part:
  "launch_part (result_state (parallel_action cfg a b n s)) = launch_part s"
  by (simp add: parallel_action_def Let_def launch_part_then_do)

lemma action_launch_part:
  "launch_part (result_state (action cfg a b n s)) = launch_part s"
  by (cases "factory_name cfg")
     (simp_all add: action.simps fallback_action_launch_part parallel_action_launch_part
        race_action_launch_part sequence_action_launch_part)

lemma action_next_number:
  "action cfg a b n s = Inr s' \<Longrightarrow> next_number s' = next_number s"
  using action_launch_part [of cfg a b n s]
  by (simp add: launch_part_def)

text \<open>
  \<^verbatim>\<open>start_requestor(value)\<close>. The new closure's \<^verbatim>\<open>number\<close> becomes live; a requestor that
  returns leaves its return value in its slot of \<open>cancel_array\<close>; one that throws is reported
  to the action as a failure, its \<^verbatim>\<open>number\<close> is cleared and the next requestor is tried
  with the same value. An exception of the action leaves through the \<^verbatim>\<open>catch\<close> block.
\<close>

function start_requestor :: "config \<Rightarrow> val \<Rightarrow> state \<Rightarrow> result" where
  "start_requestor cfg v s =
     (if cancel_array s \<noteq> None \<and> next_number s < length (requestor_array cfg)
      then
        (case call_requestor cfg (requestor_array cfg ! next_number s) v of
           Returns r \<Rightarrow>
             Inr (s\<lparr>next_number := next_number s + 1,
                    number_live := (number_live s)[next_number s := True],
                    launched := launched s @ [(next_number s, v)],
                    cancel_array := map_option (\<lambda>arr. arr[next_number s := r]) (cancel_array s)\<rparr>)
         | Throws exception \<Rightarrow>
             (case action cfg JUndefined exception (next_number s)
                     (s\<lparr>next_number := next_number s + 1,
                        number_live := (number_live s)[next_number s := True],
                        launched := launched s @ [(next_number s, v)]\<rparr>) of
                Inl x \<Rightarrow> Inl x
              | Inr s2 \<Rightarrow>
                  start_requestor cfg v
                    (s2\<lparr>number_live := (number_live s2)[next_number s := False]\<rparr>)))
      else Inr s)"
  by pat_completeness auto
termination
proof (relation "measure (\<lambda>(cfg, v, s). length (requestor_array cfg) - next_number s)")
  show "wf (measure (\<lambda>(cfg, v, s). length (requestor_array cfg) - next_number s))"
    by simp
next
  fix cfg :: config and v :: val and s :: state and x2 :: val and s2 :: state
  assume live: "cancel_array s \<noteq> None \<and> next_number s < length (requestor_array cfg)"
    and act: "action cfg JUndefined x2 (next_number s)
               (s\<lparr>next_number := next_number s + 1,
                  number_live := (number_live s)[next_number s := True],
                  launched := launched s @ [(next_number s, v)]\<rparr>) = Inr s2"
  from action_next_number [OF act] have "next_number s2 = next_number s + 1"
    by simp
  with live
  show "((cfg, v, s2\<lparr>number_live := (number_live s2)[next_number s := False]\<rparr>), (cfg, v, s))
          \<in> measure (\<lambda>(cfg, v, s). length (requestor_array cfg) - next_number s)"
    by auto
qed

declare start_requestor.simps [simp del]

text \<open>
  \<^verbatim>\<open>start_requestor_callback(success, error)\<close> of requestor \<open>number\<close>. It is ignored when the
  coordinator has been cancelled or when its \<^verbatim>\<open>number\<close> is no longer defined (a requestor
  that was never started has no callback). An exception of the action leaves before
  \<^verbatim>\<open>number\<close> is cleared and before the next requestor is started.
\<close>

definition start_requestor_callback :: "config \<Rightarrow> nat \<Rightarrow> val \<Rightarrow> val \<Rightarrow> state \<Rightarrow> result" where
  "start_requestor_callback cfg number success error s =
     (if cancel_array s \<noteq> None \<and> number < length (number_live s) \<and> number_live s ! number
      then
        (case action cfg success error number
                (s\<lparr>cancel_array := map_option (\<lambda>arr. arr[number := JUndefined]) (cancel_array s)\<rparr>) of
           Inl x \<Rightarrow> Inl x
         | Inr s2 \<Rightarrow>
             start_requestor cfg
               (if factory_name cfg = Sequence then success else initial_value cfg)
               (s2\<lparr>number_live := (number_live s2)[number := False]\<rparr>))
      else Inr s)"

subsection \<open>run\<close>

text \<open>
  \<^verbatim>\<open>run\<close> sets up the coordinator: the throttle (by default the number of requestors) must
  be a safe integer of at least 1, \<open>min throttle n\<close> calls of \<^verbatim>\<open>start_requestor\<close> are
  handed to the host, and the timer is armed when \<^verbatim>\<open>milliseconds\<close> is a positive number.
  The state passed in holds the variables the factory's requestor has initialised. When
  \<^verbatim>\<open>run\<close> throws, the invocation has no coordinator to speak of and the model stops there
  (the source has handed the launches to the host before it checks \<^verbatim>\<open>milliseconds\<close>).
\<close>

definition run :: "config \<Rightarrow> val \<Rightarrow> state \<Rightarrow> val + state" where
  "run cfg throttle0 s =
     (let n = length (requestor_array cfg);
          throttle = (if throttle0 = JUndefined then JNum (int n) else throttle0);
          name = factory_string (factory_name cfg)
      in case throttle of
           JNum t \<Rightarrow>
             if \<not> (- (2 ^ 53 - 1) \<le> t \<and> t \<le> 2 ^ 53 - 1) \<or> t < 1
             then Inl (make_error name (Some ''Bad throttle.'') throttle)
             else
               let s1 = s\<lparr>cancel_array := Some (replicate n JUndefined),
                          next_number := 0,
                          timer_id := False,
                          number_live := replicate n False,
                          deferred := min (nat t) n,
                          timer_armed := False\<rparr>
               in if milliseconds cfg \<noteq> JUndefined
                  then (case milliseconds cfg of
                          JNum m \<Rightarrow>
                            if m \<ge> 0
                            then Inr (if m > 0 then s1\<lparr>timer_id := True, timer_armed := True\<rparr> else s1)
                            else Inl (make_error name (Some ''Bad milliseconds.'') (milliseconds cfg))
                        | _ \<Rightarrow> Inl (make_error name (Some ''Bad milliseconds.'') (milliseconds cfg)))
                  else Inr s1
         | _ \<Rightarrow> Inl (make_error name (Some ''Bad throttle.'') throttle))"

subsection \<open>Events\<close>

text \<open>
  What can happen to a coordinator after \<^verbatim>\<open>run\<close> has returned: the host runs one of the
  deferred \<^verbatim>\<open>start_requestor\<close> calls (\<open>Tick\<close>), requestor \<open>i\<close> calls its callback with
  \<open>(success, error)\<close> (\<open>Done\<close>), the timer fires (\<open>TimerFires\<close>), or the caller calls the
  returned \<^verbatim>\<open>cancel\<close> with a reason (\<open>Cancel\<close>). An event the host cannot produce (a tick when
  none is left, the timer when it is not armed) changes nothing.
\<close>

datatype event = Tick | Done nat val val | TimerFires | Cancel val

fun handle_event :: "config \<Rightarrow> event \<Rightarrow> state \<Rightarrow> result" where
  "handle_event cfg Tick s =
     (if deferred s > 0
      then start_requestor cfg (initial_value cfg) (s\<lparr>deferred := deferred s - 1\<rparr>)
      else Inr s)"
| "handle_event cfg (Done i success error) s = start_requestor_callback cfg i success error s"
| "handle_event cfg TimerFires s =
     (if timer_armed s then timeout cfg (s\<lparr>timer_armed := False\<rparr>) else Inr s)"
| "handle_event cfg (Cancel reason) s = Inr (cancel cfg reason s)"

text \<open>An exception that leaves a handler is recorded; the state keeps what was written.\<close>

definition step :: "config \<Rightarrow> event \<Rightarrow> state \<Rightarrow> state" where
  "step cfg ev s =
     (case handle_event cfg ev s of
        Inl (e, s') \<Rightarrow> s'\<lparr>uncaught := uncaught s' @ [e]\<rparr>
      | Inr s' \<Rightarrow> s')"

definition exec :: "config \<Rightarrow> event list \<Rightarrow> state \<Rightarrow> state" where
  "exec cfg evs s = foldl (\<lambda>s ev. step cfg ev s) s evs"

section \<open>The factories\<close>

text \<open>
  A factory checks its arguments and returns a requestor, a closure over the variables named
  here. \<open>invoke\<close> below is the call of such a requestor with a callback and an initial value.
\<close>

datatype requestor_fn =
    Fallback_requestor "val option list" val
  | Parallel_requestor nat "val option list" val val val
  | Race_requestor "val option list" val val
  | Sequence_requestor "val option list" val

definition new_state :: "val \<Rightarrow> int \<Rightarrow> int \<Rightarrow> val \<Rightarrow> state" where
  "new_state cb pending pending_required opt =
     \<lparr>cancel_array = None, next_number = 0, timer_id = False, number_live = [],
      number_pending = pending, number_pending_required_array = pending_required,
      results = [], option = opt, callback = cb, deferred = 0, timer_armed = False,
      launched = [], cancelled = [], called = [], uncaught = []\<rparr>"

definition fallback :: "val \<Rightarrow> val \<Rightarrow> val + requestor_fn" where
  "fallback requestor_array' milliseconds' =
     then_do (check_requestor_array requestor_array' ''fallback'')
       (\<lambda>u. case requestor_array' of
               JArr xs \<Rightarrow> Inr (Fallback_requestor xs milliseconds')
             | _ \<Rightarrow> Inl (make_error ''fallback'' (Some ''Bad requestors array.'') requestor_array'))"

definition fallback_requestor ::
  "val option list \<Rightarrow> val \<Rightarrow> (nat \<Rightarrow> val \<Rightarrow> outcome) \<Rightarrow> val \<Rightarrow> val \<Rightarrow> val + config \<times> state" where
  "fallback_requestor requestor_array' milliseconds' beh callback' initial_value' =
     then_do (check_callback callback' ''fallback'')
       (\<lambda>u. let cfg = \<lparr>factory_name = Fallback, requestor_array = requestor_array',
                        initial_value = initial_value', milliseconds = milliseconds',
                        number_required = 0, behaviour = beh\<rparr>
             in then_do
                  (run cfg (JNum 1) (new_state callback' (int (length requestor_array')) 0 JUndefined))
                  (\<lambda>s. Inr (cfg, s)))"

text \<open>
  The two array arguments of \<^verbatim>\<open>parallel\<close> are \<^verbatim>\<open>undefined\<close> (\<open>None\<close>) or an array.
\<close>

fun missing :: "val option list option \<Rightarrow> bool" where
  "missing None = True"
| "missing (Some xs) = (length xs = 0)"

fun array_val :: "val option list option \<Rightarrow> val" where
  "array_val None = JUndefined"
| "array_val (Some xs) = JArr xs"

fun elements :: "val option list option \<Rightarrow> val option list" where
  "elements None = []"
| "elements (Some xs) = xs"

definition parallel ::
  "val option list option \<Rightarrow> val option list option \<Rightarrow> val \<Rightarrow> val \<Rightarrow> val \<Rightarrow> val + requestor_fn" where
  "parallel required_array optional_array milliseconds' throttle option0 =
     (if missing required_array
      then
        if missing optional_array
        then Inl (make_error ''parallel'' (Some ''Missing requestor array.'') (array_val required_array))
        else then_do (check_requestor_array (JArr (elements optional_array)) ''parallel'')
               (\<lambda>u. Inr (Parallel_requestor 0 (elements optional_array) milliseconds' throttle
                           (JBool True)))
      else
        if missing optional_array
        then then_do (check_requestor_array (JArr (elements required_array)) ''parallel'')
               (\<lambda>u. Inr (Parallel_requestor (length (elements required_array))
                           (elements required_array) milliseconds' throttle JUndefined))
        else
          if option0 \<noteq> JUndefined \<and> \<not> is_boolean option0
          then Inl (make_error ''parallel'' (Some ''Bad option.'') option0)
          else then_do
                 (check_requestor_array (JArr (elements required_array @ elements optional_array))
                    ''parallel'')
                 (\<lambda>u. Inr (Parallel_requestor (length (elements required_array))
                             (elements required_array @ elements optional_array)
                             milliseconds' throttle option0)))"

definition parallel_requestor ::
  "nat \<Rightarrow> val option list \<Rightarrow> val \<Rightarrow> val \<Rightarrow> val \<Rightarrow> (nat \<Rightarrow> val \<Rightarrow> outcome) \<Rightarrow> val \<Rightarrow> val
     \<Rightarrow> val + config \<times> state" where
  "parallel_requestor number_required' requestor_array' milliseconds' throttle option0 beh
       callback' initial_value' =
     then_do (check_callback callback' ''parallel'')
       (\<lambda>u. let cfg = \<lparr>factory_name = Parallel, requestor_array = requestor_array',
                        initial_value = initial_value', milliseconds = milliseconds',
                        number_required = number_required', behaviour = beh\<rparr>
             in then_do
                  (run cfg throttle
                     (new_state callback' (int (length requestor_array')) (int number_required') option0))
                  (\<lambda>s. Inr (cfg, s)))"

definition race :: "val \<Rightarrow> val \<Rightarrow> val \<Rightarrow> val + requestor_fn" where
  "race requestor_array' milliseconds' throttle =
     then_do (check_requestor_array requestor_array' ''race'')
       (\<lambda>u. case requestor_array' of
               JArr xs \<Rightarrow> Inr (Race_requestor xs milliseconds' throttle)
             | _ \<Rightarrow> Inl (make_error ''race'' (Some ''Bad requestors array.'') requestor_array'))"

definition race_requestor ::
  "val option list \<Rightarrow> val \<Rightarrow> val \<Rightarrow> (nat \<Rightarrow> val \<Rightarrow> outcome) \<Rightarrow> val \<Rightarrow> val \<Rightarrow> val + config \<times> state" where
  "race_requestor requestor_array' milliseconds' throttle beh callback' initial_value' =
     then_do (check_callback callback' ''race'')
       (\<lambda>u. let cfg = \<lparr>factory_name = Race, requestor_array = requestor_array',
                        initial_value = initial_value', milliseconds = milliseconds',
                        number_required = 0, behaviour = beh\<rparr>
             in then_do
                  (run cfg throttle (new_state callback' (int (length requestor_array')) 0 JUndefined))
                  (\<lambda>s. Inr (cfg, s)))"

definition sequence :: "val \<Rightarrow> val \<Rightarrow> val + requestor_fn" where
  "sequence requestor_array' milliseconds' =
     then_do (check_requestor_array requestor_array' ''sequence'')
       (\<lambda>u. case requestor_array' of
               JArr xs \<Rightarrow> Inr (Sequence_requestor xs milliseconds')
             | _ \<Rightarrow> Inl (make_error ''sequence'' (Some ''Bad requestors array.'') requestor_array'))"

definition sequence_requestor ::
  "val option list \<Rightarrow> val \<Rightarrow> (nat \<Rightarrow> val \<Rightarrow> outcome) \<Rightarrow> val \<Rightarrow> val \<Rightarrow> val + config \<times> state" where
  "sequence_requestor requestor_array' milliseconds' beh callback' initial_value' =
     then_do (check_callback callback' ''sequence'')
       (\<lambda>u. let cfg = \<lparr>factory_name = Sequence, requestor_array = requestor_array',
                        initial_value = initial_value', milliseconds = milliseconds',
                        number_required = 0, behaviour = beh\<rparr>
             in then_do
                  (run cfg (JNum 1) (new_state callback' (int (length requestor_array')) 0 JUndefined))
                  (\<lambda>s. Inr (cfg, s)))"

fun invoke ::
  "requestor_fn \<Rightarrow> (nat \<Rightarrow> val \<Rightarrow> outcome) \<Rightarrow> val \<Rightarrow> val \<Rightarrow> val + config \<times> state" where
  "invoke (Fallback_requestor xs ms) = fallback_requestor xs ms"
| "invoke (Parallel_requestor nr xs ms thr opt) = parallel_requestor nr xs ms thr opt"
| "invoke (Race_requestor xs ms thr) = race_requestor xs ms thr"
| "invoke (Sequence_requestor xs ms) = sequence_requestor xs ms"

subsection \<open>parallel\_object\<close>

text \<open>
  An object argument of \<^verbatim>\<open>parallel_object\<close>: \<^verbatim>\<open>undefined\<close>, a value whose \<^verbatim>\<open>typeof\<close> is not
  \<^verbatim>\<open>"object"\<close>, or a mapping from names to values, its entries listed in the order of
  \<^verbatim>\<open>Object.keys\<close> (the names distinct, no inherited properties).
\<close>

datatype objarg = Obj_undefined | Not_object val | Mapping "(string \<times> val) list"

fun objarg_val :: "objarg \<Rightarrow> val" where
  "objarg_val Obj_undefined = JUndefined"
| "objarg_val (Not_object v) = v"
| "objarg_val (Mapping kvs) = JObj kvs"

fun entries :: "objarg \<Rightarrow> (string \<times> val) list" where
  "entries (Mapping kvs) = kvs"
| "entries x = []"

text \<open>\<^verbatim>\<open>typeof requestor === "function" && (requestor.length === 1 || requestor.length === 2)\<close>\<close>

fun collected :: "string \<times> val \<Rightarrow> bool" where
  "collected (name, JFun a r) = (a = 1 \<or> a = 2)"
| "collected (name, v) = False"

text \<open>\<^verbatim>\<open>required_object !== undefined && required_object[name] !== undefined\<close>\<close>

fun has_property :: "objarg \<Rightarrow> string \<Rightarrow> bool" where
  "has_property (Mapping kvs) name =
     (case map_of kvs name of None \<Rightarrow> False | Some v \<Rightarrow> v \<noteq> JUndefined)"
| "has_property x name = False"

text \<open>
  What the factory hands back: a requestor with the harvested names, or, when nothing was
  harvested, the error report that the source returns (with \<^verbatim>\<open>return\<close>) in place of one.
\<close>

datatype object_factory_result =
    Returned_report val
  | Parallel_object_requestor "string list" requestor_fn

definition parallel_object ::
  "objarg \<Rightarrow> objarg \<Rightarrow> val \<Rightarrow> val \<Rightarrow> val \<Rightarrow> val + object_factory_result" where
  "parallel_object required_object optional_object milliseconds' throttle option0 =
     (case required_object of
        Not_object v \<Rightarrow> Inl (make_error ''parallel_object'' (Some ''Type mismatch.'') v)
      | _ \<Rightarrow>
        (let required = filter collected (entries required_object)
         in (case optional_object of
               Not_object v \<Rightarrow> Inl (make_error ''parallel_object'' (Some ''Type mismatch.'') v)
             | _ \<Rightarrow>
               (let optional = filter collected (entries optional_object)
                in (case find (\<lambda>(name, r). has_property required_object name) optional of
                      Some (name, r) \<Rightarrow>
                        Inl (make_error ''parallel_object'' (Some ''Duplicate name.'') (JStr name))
                    | None \<Rightarrow>
                        (let names = map fst required @ map fst optional
                         in if length names = 0
                            then Inr (Returned_report
                                        (make_error ''parallel_object'' (Some ''No requestors.'')
                                           (objarg_val required_object)))
                            else then_do
                                   (parallel (Some (map (\<lambda>(name, r). Some r) required))
                                      (Some (map (\<lambda>(name, r). Some r) optional))
                                      milliseconds' throttle option0)
                                   (\<lambda>requestor.
                                      Inr (Parallel_object_requestor names requestor))))))))"

text \<open>
  \<^verbatim>\<open>parallel_object_callback(success, error)\<close>: what the caller's callback receives for a
  call \<open>(success, error)\<close> made by the parallel requestor. A failure passes through; a
  success array becomes an object, name by name (a hole reads as \<^verbatim>\<open>undefined\<close>).
\<close>

fun element_at :: "val \<Rightarrow> nat \<Rightarrow> val" where
  "element_at (JArr xs) i =
     (if i < length xs then (case xs ! i of None \<Rightarrow> JUndefined | Some v \<Rightarrow> v) else JUndefined)"
| "element_at v i = JUndefined"

fun assign :: "(string \<times> val) list \<Rightarrow> string \<Rightarrow> val \<Rightarrow> (string \<times> val) list" where
  "assign [] name v = [(name, v)]"
| "assign ((k, w) # kvs) name v = (if k = name then (k, v) # kvs else (k, w) # assign kvs name v)"

definition parallel_object_callback :: "string list \<Rightarrow> val \<times> val \<Rightarrow> val \<times> val" where
  "parallel_object_callback names call =
     (case call of (success, error) \<Rightarrow>
        if success = JUndefined then (success, error)
        else (JObj (foldl (\<lambda>object (name, index). assign object name (element_at success index))
                      [] (zip names [0..<length names])),
              JUndefined))"

text \<open>
  The requestor of \<^verbatim>\<open>parallel_object\<close> checks the caller's callback and calls the parallel
  requestor with \<^verbatim>\<open>parallel_object_callback\<close>, a function of two arguments; the calls the
  caller sees are those of \<open>called\<close>, each passed through \<open>parallel_object_callback\<close>.
\<close>

definition parallel_object_requestor ::
  "string list \<Rightarrow> requestor_fn \<Rightarrow> (nat \<Rightarrow> val \<Rightarrow> outcome) \<Rightarrow> val \<Rightarrow> val \<Rightarrow> val + config \<times> state" where
  "parallel_object_requestor names requestor beh callback' initial_value' =
     then_do (check_callback callback' ''parallel_object'')
       (\<lambda>u. invoke requestor beh (JFun 2 0) initial_value')"

definition object_calls :: "string list \<Rightarrow> state \<Rightarrow> (val \<times> val) list" where
  "object_calls names s = map (parallel_object_callback names) (called s)"

section \<open>Basic facts\<close>


lemma cancel_fields [simp]:
  "next_number (cancel cfg r s) = next_number s"
  "number_live (cancel cfg r s) = number_live s"
  "number_pending (cancel cfg r s) = number_pending s"
  "number_pending_required_array (cancel cfg r s) = number_pending_required_array s"
  "results (cancel cfg r s) = results s"
  "option (cancel cfg r s) = option s"
  "callback (cancel cfg r s) = callback s"
  "deferred (cancel cfg r s) = deferred s"
  "launched (cancel cfg r s) = launched s"
  "called (cancel cfg r s) = called s"
  "uncaught (cancel cfg r s) = uncaught s"
  "cancel_array (cancel cfg r s) = None"
  "timer_id (cancel cfg r s) = False"
  "timer_armed (cancel cfg r s) = (timer_armed s \<and> \<not> timer_id s)"
  by (simp_all add: cancel_def Let_def split: option.splits)




lemma report_normal:
  "is_function (callback s) \<Longrightarrow>
   then_do (invoke_callback a b (cancel cfg r s)) clear_callback =
     Inr ((cancel cfg r s)\<lparr>called := called s @ [(a, b)], callback := JUndefined\<rparr>)"
  by (simp add: then_do_def invoke_callback_def clear_callback_def)

lemma report_throws:
  "\<not> is_function (callback s) \<Longrightarrow>
   then_do (invoke_callback a b (cancel cfg r s)) clear_callback =
     Inl (JTypeError ''callback is not a function'', cancel cfg r s)"
  by (simp add: then_do_def invoke_callback_def clear_callback_def)

lemma then_do_simps [simp]:
  "then_do (Inl e) f = Inl e" "then_do (Inr a) f = f a"
  by (simp_all add: then_do_def)

lemma start_requestor_dead [simp]:
  "cancel_array s = None \<Longrightarrow> start_requestor cfg v s = Inr s"
  by (simp add: start_requestor.simps)


section \<open>Construction-time checks\<close>

fun is_mapping_arg :: "objarg \<Rightarrow> bool" where
  "is_mapping_arg (Not_object v) = False"
| "is_mapping_arg x = True"

text \<open>
  Claim C3. When both arguments of \<^verbatim>\<open>parallel_object\<close> are \<^verbatim>\<open>undefined\<close> or mappings and no
  entry is a function of arity 1 or 2, the claim expects a thrown configuration error and
  no call of \<^verbatim>\<open>parallel\<close>. The source does not call \<^verbatim>\<open>parallel\<close>, but it does not throw
  either: \<^verbatim>\<open>return make_error(...)\<close> hands the "No requestors." report back as the
  factory's result, where every other check of the file throws. The theorem states what
  the source does on all such arguments.
\<close>

theorem parallel_object_returns_report:
  assumes "is_mapping_arg required_object" and "is_mapping_arg optional_object"
    and "filter collected (entries required_object) = []"
    and "filter collected (entries optional_object) = []"
  shows "parallel_object required_object optional_object ms thr option0 =
           Inr (Returned_report
                  (make_error ''parallel_object'' (Some ''No requestors.'')
                     (objarg_val required_object)))"
  using assms
  by (cases required_object; cases optional_object) (simp_all add: parallel_object_def)

theorem parallel_object_returns_report_witness:
  "is_mapping_arg (Mapping [(''x'', JNum 5)]) \<and> is_mapping_arg Obj_undefined
   \<and> filter collected (entries (Mapping [(''x'', JNum 5)])) = []
   \<and> filter collected (entries Obj_undefined) = []
   \<and> parallel_object (Mapping [(''x'', JNum 5)]) Obj_undefined JUndefined JUndefined JUndefined =
       Inr (Returned_report
              (JError ''parseq.parallel_object: No requestors.'' (JObj [(''x'', JNum 5)])))"
  using parallel_object_returns_report
          [of "Mapping [(''x'', JNum 5)]" Obj_undefined JUndefined JUndefined JUndefined]
  by (simp add: make_error_def)

text \<open>
  Claim C7, as stated: a defined, non-boolean option makes \<^verbatim>\<open>parallel\<close> throw whatever the
  two arrays are. It does not when only one array is given: the option is overwritten
  before anything looks at it, and the factory returns a requestor.
\<close>

theorem parallel_option_unchecked_counterexample:
  "parallel (Some [Some (JFun 1 0)]) None JUndefined JUndefined (JStr ''bogus'') =
     Inr (Parallel_requestor 1 [Some (JFun 1 0)] JUndefined JUndefined JUndefined)"
  by (simp add: parallel_def check_requestor_array_def then_do_def)

text \<open>
  Claim C7, amended: when both arrays are non-empty, a defined, non-boolean option makes
  \<^verbatim>\<open>parallel\<close> throw the "Bad option." report, before the requestors are checked; when both
  are empty or absent it throws "Missing requestor array.". Nothing is passed to a
  callback: the factory has none.
\<close>

theorem parallel_bad_option:
  assumes "option0 \<noteq> JUndefined" and "\<not> is_boolean option0"
    and "missing required_array = missing optional_array"
  shows "parallel required_array optional_array ms thr option0 =
           Inl (if missing required_array
                then make_error ''parallel'' (Some ''Missing requestor array.'')
                       (array_val required_array)
                else make_error ''parallel'' (Some ''Bad option.'') option0)"
  using assms by (simp add: parallel_def)

theorem parallel_bad_option_witness:
  "JNum 3 \<noteq> JUndefined \<and> \<not> is_boolean (JNum 3)
   \<and> missing (Some [Some (JFun 1 0)]) = missing (Some [Some (JFun 2 1)])
   \<and> parallel (Some [Some (JFun 1 0)]) (Some [Some (JFun 2 1)]) JUndefined JUndefined (JNum 3) =
       Inl (JError ''parseq.parallel: Bad option.'' (JNum 3))"
  using parallel_bad_option
          [of "JNum 3" "Some [Some (JFun 1 0)]" "Some [Some (JFun 2 1)]" JUndefined JUndefined]
  by (simp add: make_error_def)



section \<open>A requestor that throws\<close>

lemma sequence_action_failure_dead:
  assumes "callback s \<noteq> JUndefined" and "sequence_action cfg JUndefined e n s = Inr s2"
  shows "cancel_array s2 = None"
proof (cases "is_function (callback s)")
  case True
  with assms show ?thesis
    by (auto simp: sequence_action_def Let_def report_normal invoke_callback_def
          clear_callback_def split: if_splits)
next
  case False
  with assms show ?thesis
    by (simp add: sequence_action_def Let_def report_throws)
qed

text \<open>
  Claim C9. A requestor that throws when it is called, at a moment when the coordinator
  is running and the requestor's slot has never been written: \<^verbatim>\<open>start_requestor\<close> calls the
  action with \<open>(undefined, e, n)\<close>, clears the closure's number and calls
  \<^verbatim>\<open>start_requestor\<close> again with the same value; and the result is exactly the result of a
  launch in which the requestor returns (anything, \<open>r\<close>) followed at once by its report
  \<open>(undefined, e)\<close> through the callback. The value passed on is the one the callback would
  pass on: outside \<^verbatim>\<open>sequence\<close> every launch gets the initial value, and in a \<^verbatim>\<open>sequence\<close>
  whose callback is still there a failure ends the run, so no launch follows.
\<close>

theorem throw_is_failure:
  assumes alive: "cancel_array s = Some arr"
    and n: "next_number s = n" "n < length (requestor_array cfg)"
    and slot: "arr ! n = JUndefined"
    and live: "n < length (number_live s)"
    and throws: "call_requestor cfg (requestor_array cfg ! n) v = Throws e"
    and val: "if factory_name cfg = Sequence then callback s \<noteq> JUndefined
              else v = initial_value cfg"
  shows "start_requestor cfg v s =
           (case action cfg JUndefined e n
                   (s\<lparr>next_number := n + 1, number_live := (number_live s)[n := True],
                      launched := launched s @ [(n, v)]\<rparr>) of
              Inl x \<Rightarrow> Inl x
            | Inr s2 \<Rightarrow> start_requestor cfg v (s2\<lparr>number_live := (number_live s2)[n := False]\<rparr>))
       \<and> start_requestor cfg v s =
           start_requestor_callback cfg n JUndefined e
             (s\<lparr>next_number := n + 1, number_live := (number_live s)[n := True],
                launched := launched s @ [(n, v)], cancel_array := Some (arr[n := r])\<rparr>)"
proof -
  let ?s1 = "s\<lparr>next_number := n + 1, number_live := (number_live s)[n := True],
                launched := launched s @ [(n, v)]\<rparr>"
  have first: "start_requestor cfg v s =
           (case action cfg JUndefined e n ?s1 of
              Inl x \<Rightarrow> Inl x
            | Inr s2 \<Rightarrow> start_requestor cfg v (s2\<lparr>number_live := (number_live s2)[n := False]\<rparr>))"
    using alive n(2) throws unfolding n(1) [symmetric] by (subst start_requestor.simps) simp
  have same: "?s1\<lparr>cancel_array := Some (arr[n := r, n := JUndefined])\<rparr> = ?s1"
  proof -
    have "arr[n := JUndefined] = arr"
      using slot by (metis list_update_id)
    with alive show ?thesis by (cases s) simp
  qed
  let ?launched = "s\<lparr>next_number := n + 1, number_live := (number_live s)[n := True],
                launched := launched s @ [(n, v)], cancel_array := Some (arr[n := r])\<rparr>"
  let ?next = "if factory_name cfg = Sequence then JUndefined else initial_value cfg"
  have second: "start_requestor_callback cfg n JUndefined e ?launched =
           (case action cfg JUndefined e n ?s1 of
              Inl x \<Rightarrow> Inl x
            | Inr s2 \<Rightarrow>
                start_requestor cfg ?next (s2\<lparr>number_live := (number_live s2)[n := False]\<rparr>))"
    using live same by (simp add: start_requestor_callback_def)
  have "start_requestor cfg v (s2\<lparr>number_live := (number_live s2)[n := False]\<rparr>) =
        start_requestor cfg ?next (s2\<lparr>number_live := (number_live s2)[n := False]\<rparr>)"
    if act: "action cfg JUndefined e n ?s1 = Inr s2" for s2
  proof (cases "factory_name cfg = Sequence")
    case True
    with val act have "cancel_array s2 = None"
      using sequence_action_failure_dead [of ?s1 cfg e n s2] by (simp add: action.simps)
    then show ?thesis by simp
  next
    case False
    with val show ?thesis by simp
  qed
  then have "start_requestor cfg v s = start_requestor_callback cfg n JUndefined e ?launched"
    unfolding first second by (cases "action cfg JUndefined e n ?s1") simp_all
  with first show ?thesis by simp
qed


text \<open>
  An instance: a race of two requestors, the first of which throws. The second requestor
  is launched in the same call.
\<close>

definition throwing_cfg :: config where
  "throwing_cfg =
     \<lparr>factory_name = Race, requestor_array = [Some (JFun 1 0), Some (JFun 1 1)],
      initial_value = JNum 7, milliseconds = JUndefined, number_required = 0,
      behaviour = (\<lambda>r v. if r = 0 then Throws (JStr ''boom'') else Returns (JFun 1 5))\<rparr>"

definition throwing_state :: state where
  "throwing_state =
     (new_state (JFun 2 9) 2 0 JUndefined)
       \<lparr>cancel_array := Some [JUndefined, JUndefined], number_live := [False, False],
        deferred := 1\<rparr>"

theorem throw_is_failure_witness:
  "cancel_array throwing_state = Some [JUndefined, JUndefined]
   \<and> next_number throwing_state = 0
   \<and> 0 < length (requestor_array throwing_cfg)
   \<and> [JUndefined, JUndefined] ! 0 = JUndefined
   \<and> 0 < length (number_live throwing_state)
   \<and> call_requestor throwing_cfg (requestor_array throwing_cfg ! 0) (JNum 7) = Throws (JStr ''boom'')
   \<and> (if factory_name throwing_cfg = Sequence then callback throwing_state \<noteq> JUndefined
       else JNum 7 = initial_value throwing_cfg)
   \<and> start_requestor throwing_cfg (JNum 7) throwing_state =
       start_requestor_callback throwing_cfg 0 JUndefined (JStr ''boom'')
         (throwing_state\<lparr>next_number := 0 + 1,
            number_live := (number_live throwing_state)[0 := True],
            launched := launched throwing_state @ [(0, JNum 7)],
            cancel_array := Some ([JUndefined, JUndefined][0 := JFun 1 3])\<rparr>)
   \<and> launched (result_state (start_requestor throwing_cfg (JNum 7) throwing_state)) =
       [(0, JNum 7), (1, JNum 7)]"
proof -
  have h1: "cancel_array throwing_state = Some [JUndefined, JUndefined]"
    by (simp add: throwing_state_def new_state_def)
  have h2: "next_number throwing_state = 0" "0 < length (requestor_array throwing_cfg)"
    by (simp_all add: throwing_state_def new_state_def throwing_cfg_def)
  have h3: "[JUndefined, JUndefined] ! 0 = JUndefined" by simp
  have h4: "0 < length (number_live throwing_state)"
    by (simp add: throwing_state_def)
  have h5: "call_requestor throwing_cfg (requestor_array throwing_cfg ! 0) (JNum 7) =
              Throws (JStr ''boom'')"
    by (simp add: throwing_cfg_def)
  have h6: "if factory_name throwing_cfg = Sequence then callback throwing_state \<noteq> JUndefined
            else JNum 7 = initial_value throwing_cfg"
    by (simp add: throwing_cfg_def)
  have run: "launched (result_state (start_requestor throwing_cfg (JNum 7) throwing_state)) =
       [(0, JNum 7), (1, JNum 7)]"
    by code_simp
  note t = throw_is_failure [OF h1 h2 h3 h4 h5 h6, of "JFun 1 3"]
  show ?thesis
    by (intro conjI h1 h2 h3 h4 h5 h6 run conjunct2 [OF t])
qed


section \<open>The throttle\<close>



definition outstanding :: "state \<Rightarrow> nat" where
  "outstanding s = length (filter id (number_live s))"

fun throttle_limit :: "val \<Rightarrow> nat \<Rightarrow> nat" where
  "throttle_limit JUndefined n = n"
| "throttle_limit (JNum t) n = nat t"
| "throttle_limit v n = 0"

definition throttle_ok ::
  "nat \<Rightarrow> nat \<Rightarrow> nat \<Rightarrow> nat \<times> bool list \<times> nat \<times> (nat \<times> val) list \<Rightarrow> bool" where
  "throttle_ok n m c p =
     (case p of (next, live, d, ls) \<Rightarrow>
        length live = n \<and> next \<le> n \<and> (\<forall>j. next \<le> j \<longrightarrow> j < n \<longrightarrow> \<not> live ! j)
        \<and> length (filter id live) + d + c \<le> m \<and> length ls = next)"

lemma count_live_update:
  "i < length xs \<Longrightarrow>
   length (filter id (xs[i := b])) + (if xs ! i then 1 else 0) =
   length (filter id xs) + (if b then 1 else 0)"
proof (induction xs arbitrary: i)
  case Nil
  then show ?case by simp
next
  case (Cons x xs)
  show ?case
  proof (cases i)
    case 0
    then show ?thesis by simp
  next
    case (Suc k)
    with Cons.prems have "k < length xs" by simp
    from Cons.IH [OF this] Suc show ?thesis by (cases x) (auto split: if_splits)
  qed
qed

lemma throttle_ok_launch:
  assumes "throttle_ok n m 1 (launch_part s)" and "next_number s < n"
  shows "throttle_ok n m 0
           (next_number s + 1, (number_live s)[next_number s := True], deferred s,
            launched s @ [(next_number s, v)])"
proof -
  from assms have len: "length (number_live s) = n"
    and dead: "\<not> number_live s ! next_number s"
    by (simp_all add: throttle_ok_def launch_part_def)
  from count_live_update [of "next_number s" "number_live s" True] len assms(2) dead
  have "length (filter id ((number_live s)[next_number s := True])) =
          length (filter id (number_live s)) + 1"
    by simp
  with assms show ?thesis
    by (auto simp: throttle_ok_def launch_part_def nth_list_update)
qed

lemma throttle_ok_clear:
  assumes "throttle_ok n m 0 (launch_part s)" and "i < n" and "number_live s ! i"
  shows "throttle_ok n m 1
           (next_number s, (number_live s)[i := False], deferred s, launched s)"
proof -
  from assms have len: "length (number_live s) = n"
    by (simp add: throttle_ok_def launch_part_def)
  from count_live_update [of i "number_live s" False] len assms(2,3)
  have "length (filter id ((number_live s)[i := False])) + 1 =
          length (filter id (number_live s))"
    by simp
  with assms show ?thesis
    by (auto simp: throttle_ok_def launch_part_def nth_list_update)
qed

lemma throttle_ok_weaken:
  "throttle_ok n m 1 p \<Longrightarrow> throttle_ok n m 0 p"
  by (auto simp: throttle_ok_def)

lemma start_requestor_throttle:
  "throttle_ok (length (requestor_array cfg)) m 1 (launch_part s) \<Longrightarrow>
   throttle_ok (length (requestor_array cfg)) m 0
     (launch_part (result_state (start_requestor cfg v s)))"
proof (induction cfg v s rule: start_requestor.induct)
  case (1 cfg v s)
  let ?n = "length (requestor_array cfg)"
  let ?s1 = "s\<lparr>next_number := next_number s + 1,
                number_live := (number_live s)[next_number s := True],
                launched := launched s @ [(next_number s, v)]\<rparr>"
  show ?case
  proof (cases "cancel_array s \<noteq> None \<and> next_number s < ?n")
    case False
    then have "start_requestor cfg v s = Inr s"
      by (subst start_requestor.simps) auto
    with "1.prems" show ?thesis by (simp add: throttle_ok_weaken)
  next
    case True
    have s1: "throttle_ok ?n m 0 (launch_part ?s1)"
      using throttle_ok_launch [OF "1.prems", of v] True by (simp add: launch_part_def)
    show ?thesis
    proof (cases "call_requestor cfg (requestor_array cfg ! next_number s) v")
      case (Returns r)
      with True have "start_requestor cfg v s =
          Inr (?s1\<lparr>cancel_array := map_option (\<lambda>arr. arr[next_number s := r]) (cancel_array s)\<rparr>)"
        by (subst start_requestor.simps) simp
      with s1 show ?thesis by simp
    next
      case (Throws e)
      show ?thesis
      proof (cases "action cfg JUndefined e (next_number s) ?s1")
        case (Inl x)
        with True Throws have "start_requestor cfg v s = Inl x"
          by (subst start_requestor.simps) simp
        moreover have "launch_part (result_state (Inl x)) = launch_part ?s1"
          using action_launch_part [of cfg JUndefined e "next_number s" ?s1] Inl by simp
        ultimately show ?thesis using s1 by simp
      next
        case (Inr s2)
        let ?s3 = "s2\<lparr>number_live := (number_live s2)[next_number s := False]\<rparr>"
        have lp: "launch_part s2 = launch_part ?s1"
          using action_launch_part [of cfg JUndefined e "next_number s" ?s1] Inr by simp
        have eq: "start_requestor cfg v s = start_requestor cfg v ?s3"
          using True Throws Inr by (subst start_requestor.simps) simp
        have "throttle_ok ?n m 0 (launch_part s2)"
          using s1 lp by simp
        moreover have "number_live s2 ! next_number s"
          using lp True "1.prems" by (simp add: launch_part_def throttle_ok_def)
        ultimately have "throttle_ok ?n m 1 (launch_part ?s3)"
          using throttle_ok_clear [of ?n m s2 "next_number s"] True
          by (simp add: launch_part_def)
        from "1.IH" [OF True Throws Inr this] eq show ?thesis by simp
      qed
    qed
  qed
qed


lemma timeout_launch_part:
  "launch_part (result_state (timeout cfg s)) = launch_part s"
  by (cases "factory_name cfg")
     (simp_all add: timeout.simps fallback_timeout_def race_timeout_def sequence_timeout_def
        parallel_timeout_def Let_def launch_part_then_do)

lemma step_launch_part:
  "launch_part (step cfg ev s) = launch_part (result_state (handle_event cfg ev s))"
  by (cases "handle_event cfg ev s") (auto simp: step_def)

lemma start_requestor_callback_throttle:
  assumes "throttle_ok (length (requestor_array cfg)) m 0 (launch_part s)"
  shows "throttle_ok (length (requestor_array cfg)) m 0
           (launch_part (result_state (start_requestor_callback cfg i a b s)))"
proof (cases "cancel_array s \<noteq> None \<and> i < length (number_live s) \<and> number_live s ! i")
  case False
  then have "start_requestor_callback cfg i a b s = Inr s"
    by (auto simp: start_requestor_callback_def)
  with assms show ?thesis by simp
next
  case True
  let ?n = "length (requestor_array cfg)"
  let ?s1 = "s\<lparr>cancel_array := map_option (\<lambda>arr. arr[i := JUndefined]) (cancel_array s)\<rparr>"
  let ?v = "if factory_name cfg = Sequence then a else initial_value cfg"
  have lp: "launch_part (result_state (action cfg a b i ?s1)) = launch_part s"
    by (simp add: action_launch_part)
  show ?thesis
  proof (cases "action cfg a b i ?s1")
    case (Inl x)
    with True have "start_requestor_callback cfg i a b s = Inl x"
      by (simp add: start_requestor_callback_def)
    with lp Inl assms show ?thesis by simp
  next
    case (Inr s2)
    let ?s3 = "s2\<lparr>number_live := (number_live s2)[i := False]\<rparr>"
    from lp Inr have lp2: "launch_part s2 = launch_part s" by simp
    from True Inr have eq: "start_requestor_callback cfg i a b s = start_requestor cfg ?v ?s3"
      by (simp add: start_requestor_callback_def)
    have "i < ?n" using True assms by (simp add: throttle_ok_def launch_part_def)
    moreover have "number_live s2 ! i" using lp2 True by (simp add: launch_part_def)
    moreover have "throttle_ok ?n m 0 (launch_part s2)" using assms lp2 by simp
    ultimately have "throttle_ok ?n m 1 (launch_part ?s3)"
      using throttle_ok_clear [of ?n m s2 i] by (simp add: launch_part_def)
    from start_requestor_throttle [OF this] eq show ?thesis by simp
  qed
qed

lemma step_throttle:
  assumes "throttle_ok (length (requestor_array cfg)) m 0 (launch_part s)"
  shows "throttle_ok (length (requestor_array cfg)) m 0 (launch_part (step cfg ev s))"
proof (cases ev)
  case Tick
  show ?thesis
  proof (cases "deferred s > 0")
    case True
    with assms have "throttle_ok (length (requestor_array cfg)) m 1
                       (launch_part (s\<lparr>deferred := deferred s - 1\<rparr>))"
      by (auto simp: throttle_ok_def launch_part_def)
    from start_requestor_throttle [OF this] True Tick show ?thesis
      by (simp add: step_launch_part)
  next
    case False
    with Tick assms show ?thesis by (simp add: step_launch_part)
  qed
next
  case (Done i a b)
  with start_requestor_callback_throttle [OF assms] show ?thesis
    by (simp add: step_launch_part)
next
  case TimerFires
  with assms show ?thesis
    by (simp add: step_launch_part timeout_launch_part)
next
  case (Cancel r)
  with assms show ?thesis by (simp add: step_launch_part)
qed

lemma exec_snoc: "exec cfg (evs @ [ev]) s = step cfg ev (exec cfg evs s)"
  by (simp add: exec_def)

lemma exec_throttle:
  assumes "throttle_ok (length (requestor_array cfg)) m 0 (launch_part s)"
  shows "throttle_ok (length (requestor_array cfg)) m 0 (launch_part (exec cfg evs s))"
proof (induction evs rule: rev_induct)
  case Nil
  with assms show ?case by (simp add: exec_def)
next
  case (snoc ev evs)
  then show ?case by (simp add: exec_snoc step_throttle)
qed

lemma run_start:
  assumes "run cfg throttle s_init = Inr s0"
  shows "launch_part s0 =
           (0, replicate (length (requestor_array cfg)) False,
            min (throttle_limit throttle (length (requestor_array cfg))) (length (requestor_array cfg)),
            launched s_init)"
    and "cancel_array s0 = Some (replicate (length (requestor_array cfg)) JUndefined)"
  using assms
  by (auto simp: run_def Let_def launch_part_def split: val.splits if_splits)


lemma throttle_ok_potential:
  "throttle_ok n m 0 (launch_part s) \<Longrightarrow>
   throttle_ok n (outstanding s + deferred s) 0 (launch_part s)"
  by (simp add: throttle_ok_def launch_part_def outstanding_def)

lemma throttle_ok_bound:
  "throttle_ok n m 0 (launch_part s) \<Longrightarrow>
   outstanding s + deferred s \<le> m \<and> next_number s \<le> n \<and> length (launched s) = next_number s"
  by (simp add: throttle_ok_def launch_part_def outstanding_def)

lemma start_requestor_deferred:
  "deferred (result_state (start_requestor cfg v s)) = deferred s"
proof (induction cfg v s rule: start_requestor.induct)
  case (1 cfg v s)
  let ?s1 = "s\<lparr>next_number := next_number s + 1,
                number_live := (number_live s)[next_number s := True],
                launched := launched s @ [(next_number s, v)]\<rparr>"
  show ?case
  proof (cases "cancel_array s \<noteq> None \<and> next_number s < length (requestor_array cfg)")
    case False
    then show ?thesis by (subst start_requestor.simps) auto
  next
    case True
    show ?thesis
    proof (cases "call_requestor cfg (requestor_array cfg ! next_number s) v")
      case (Returns r)
      with True show ?thesis by (subst start_requestor.simps) simp
    next
      case (Throws e)
      have lp: "launch_part (result_state (action cfg JUndefined e (next_number s) ?s1)) =
                  launch_part ?s1"
        by (rule action_launch_part)
      show ?thesis
      proof (cases "action cfg JUndefined e (next_number s) ?s1")
        case (Inl x)
        with lp have "deferred (result_state (Inl x)) = deferred s"
          by (simp add: launch_part_def)
        with True Throws Inl show ?thesis by (subst start_requestor.simps) simp
      next
        case (Inr s2)
        with lp have "deferred s2 = deferred s" by (simp add: launch_part_def)
        with "1.IH" [OF True Throws Inr] True Throws Inr show ?thesis
          by (subst start_requestor.simps) simp
      qed
    qed
  qed
qed

lemma step_deferred:
  "deferred (step cfg ev s) = (if ev = Tick then deferred s - 1 else deferred s)"
proof -
  have "deferred (step cfg ev s) = deferred (result_state (handle_event cfg ev s))"
    using step_launch_part [of cfg ev s] by (simp add: launch_part_def)
  also have "\<dots> = (if ev = Tick then deferred s - 1 else deferred s)"
  proof (cases ev)
    case Tick
    then show ?thesis by (simp add: start_requestor_deferred)
  next
    case (Done i a b)
    have "deferred (result_state (start_requestor_callback cfg i a b s)) = deferred s"
    proof (cases "action cfg a b i
                    (s\<lparr>cancel_array := map_option (\<lambda>arr. arr[i := JUndefined]) (cancel_array s)\<rparr>)")
      case (Inl x)
      with action_launch_part [of cfg a b i
             "s\<lparr>cancel_array := map_option (\<lambda>arr. arr[i := JUndefined]) (cancel_array s)\<rparr>"]
      show ?thesis
        by (simp add: start_requestor_callback_def launch_part_def)
    next
      case (Inr s2)
      with action_launch_part [of cfg a b i
             "s\<lparr>cancel_array := map_option (\<lambda>arr. arr[i := JUndefined]) (cancel_array s)\<rparr>"]
      show ?thesis
        by (simp add: start_requestor_callback_def launch_part_def start_requestor_deferred)
    qed
    with Done show ?thesis by simp
  next
    case TimerFires
    with timeout_launch_part [of cfg "s\<lparr>timer_armed := False\<rparr>"] show ?thesis
      by (simp add: launch_part_def)
  next
    case (Cancel r)
    with launch_part_cancel [of cfg r s] show ?thesis by (simp add: launch_part_def)
  qed
  finally show ?thesis .
qed

lemma step_no_launch:
  assumes "ev = TimerFires \<or> (\<exists>r. ev = Cancel r)"
  shows "launched (step cfg ev s) = launched s"
proof -
  have "launch_part (step cfg ev s) = launch_part s"
    using assms by (auto simp: step_launch_part timeout_launch_part)
  then show ?thesis by (simp add: launch_part_def)
qed

text \<open>
  Claim C8. \<open>outstanding\<close> counts the requestors that were called and whose callback
  closure still holds its number: those launched and not yet completed. A requestor that
  throws completes at once, in the call that launched it. For the coordinator that \<^verbatim>\<open>run\<close>
  sets up over \<open>n\<close> requestors with throttle \<open>t\<close> (\<open>n\<close> when the throttle is absent):
  exactly \<open>min t n\<close> launches are handed to the host; after any events, the outstanding
  requestors and the launches still deferred together never exceed \<open>min t n\<close>, and the
  cursor never exceeds \<open>n\<close>; no event raises the sum of outstanding and deferred launches, so
  a requestor is launched only by one of the deferred calls or in the place of one that
  completed; the timer and \<^verbatim>\<open>cancel\<close> launch nothing, and the report of a requestor that
  is not outstanding changes nothing.
\<close>

theorem throttle_bound:
  assumes "run cfg throttle s_init = Inr s0" and "launched s_init = []"
    and n: "n = length (requestor_array cfg)" and m: "m = min (throttle_limit throttle n) n"
    and s: "s = exec cfg evs s0" and s': "s' = step cfg ev s"
  shows "deferred s0 = m \<and> next_number s0 = 0 \<and> outstanding s0 = 0
       \<and> outstanding s + deferred s \<le> m
       \<and> next_number s \<le> n
       \<and> length (launched s) = next_number s
       \<and> outstanding s' + deferred s' \<le> outstanding s + deferred s
       \<and> deferred s' = (if ev = Tick then deferred s - 1 else deferred s)
       \<and> (ev = TimerFires \<or> (\<exists>r. ev = Cancel r) \<longrightarrow> launched s' = launched s)
       \<and> (\<forall>i a b. ev = Done i a b \<and> \<not> (i < n \<and> number_live s ! i) \<longrightarrow> s' = s)"
proof -
  note start = run_start [OF assms(1)]
  have init: "throttle_ok n m 0 (launch_part s0)"
    using start(1) assms(2) n m by (simp add: throttle_ok_def)
  have s0: "deferred s0 = m \<and> next_number s0 = 0 \<and> outstanding s0 = 0"
    using start(1) n m by (simp add: launch_part_def outstanding_def)
  have inv: "throttle_ok n m 0 (launch_part s)"
    unfolding s n by (rule exec_throttle [OF init [unfolded n]])
  have pot: "throttle_ok n (outstanding s + deferred s) 0 (launch_part s')"
    unfolding s' n by (rule step_throttle [OF throttle_ok_potential [OF inv [unfolded n]]])
  have ignored: "s' = s" if "ev = Done i a b" and "\<not> (i < n \<and> number_live s ! i)" for i a b
  proof -
    from inv have "length (number_live s) = n"
      by (simp add: throttle_ok_def launch_part_def)
    with that show ?thesis
      by (auto simp: s' step_def start_requestor_callback_def)
  qed
  show ?thesis
    using s0 throttle_ok_bound [OF inv] throttle_ok_bound [OF pot]
      step_deferred [of cfg ev s] step_no_launch [of ev cfg s] ignored
    by (auto simp: s')
qed

text \<open>
  An instance: throttle 2 over five requestors. Two are launched by the two deferred calls;
  the third is launched when the first reports.
\<close>

definition throttled_cfg :: config where
  "throttled_cfg =
     \<lparr>factory_name = Race, requestor_array = replicate 5 (Some (JFun 1 0)),
      initial_value = JNum 7, milliseconds = JUndefined, number_required = 0,
      behaviour = (\<lambda>r v. Returns (JFun 1 5))\<rparr>"

definition throttled_start :: state where
  "throttled_start =
     (new_state (JFun 2 9) 5 0 JUndefined)
       \<lparr>cancel_array := Some (replicate 5 JUndefined), number_live := replicate 5 False,
        deferred := 2\<rparr>"

theorem throttle_bound_witness:
  "run throttled_cfg (JNum 2) (new_state (JFun 2 9) 5 0 JUndefined) = Inr throttled_start
   \<and> launched (new_state (JFun 2 9) 5 0 JUndefined) = []
   \<and> deferred throttled_start = 2
   \<and> outstanding (exec throttled_cfg [Tick, Tick] throttled_start) = 2
   \<and> next_number (exec throttled_cfg [Tick, Tick] throttled_start) = 2
   \<and> outstanding (step throttled_cfg (Done 0 JUndefined (JStr ''e''))
                     (exec throttled_cfg [Tick, Tick] throttled_start))
      + deferred (step throttled_cfg (Done 0 JUndefined (JStr ''e''))
                     (exec throttled_cfg [Tick, Tick] throttled_start))
      \<le> outstanding (exec throttled_cfg [Tick, Tick] throttled_start)
        + deferred (exec throttled_cfg [Tick, Tick] throttled_start)
   \<and> next_number (step throttled_cfg (Done 0 JUndefined (JStr ''e''))
                     (exec throttled_cfg [Tick, Tick] throttled_start)) = 3"
proof -
  have h1: "run throttled_cfg (JNum 2) (new_state (JFun 2 9) 5 0 JUndefined) = Inr throttled_start"
    by (simp add: run_def throttled_cfg_def throttled_start_def new_state_def)
  have h2: "launched (new_state (JFun 2 9) 5 0 JUndefined) = []"
    by (simp add: new_state_def)
  have e1: "outstanding (exec throttled_cfg [Tick, Tick] throttled_start) = 2"
    by code_simp
  have e2: "next_number (exec throttled_cfg [Tick, Tick] throttled_start) = 2"
    by code_simp
  have e3: "next_number (step throttled_cfg (Done 0 JUndefined (JStr ''e''))
                     (exec throttled_cfg [Tick, Tick] throttled_start)) = 3"
    by code_simp
  have e0: "deferred throttled_start = 2"
    by (simp add: throttled_start_def)
  note t = throttle_bound [OF h1 h2 refl refl refl refl,
             of "[Tick, Tick]" "Done 0 JUndefined (JStr ''e'')"]
  from t have pot:
    "outstanding (step throttled_cfg (Done 0 JUndefined (JStr ''e''))
                     (exec throttled_cfg [Tick, Tick] throttled_start))
      + deferred (step throttled_cfg (Done 0 JUndefined (JStr ''e''))
                     (exec throttled_cfg [Tick, Tick] throttled_start))
      \<le> outstanding (exec throttled_cfg [Tick, Tick] throttled_start)
        + deferred (exec throttled_cfg [Tick, Tick] throttled_start)"
    by (elim conjE)
  show ?thesis
    by (intro conjI h1 h2 e0 e1 e2 e3 pot)
qed


section \<open>The caller's callback\<close>

text \<open>
  A whole invocation: the requestor a factory returned is called with a callback and an
  initial value, and the events happen in the order given.
\<close>

definition trace ::
  "requestor_fn \<Rightarrow> (nat \<Rightarrow> val \<Rightarrow> outcome) \<Rightarrow> val \<Rightarrow> val \<Rightarrow> event list \<Rightarrow> val + state" where
  "trace requestor beh callback' initial_value' evs =
     then_do (invoke requestor beh callback' initial_value')
       (\<lambda>(cfg, s). Inr (exec cfg evs s))"

text \<open>
  What the outside world has seen of an invocation: the calls of the callback, the calls of
  cancel functions, and the exceptions that escaped.
\<close>

definition observed ::
  "val + state \<Rightarrow> ((val \<times> val) list \<times> (nat \<times> val) list \<times> val list) option" where
  "observed r = (case r of Inl e \<Rightarrow> None | Inr s \<Rightarrow> Some (called s, cancelled s, uncaught s))"

definition reports_nothing :: "nat \<Rightarrow> val \<Rightarrow> outcome" where
  "reports_nothing r v = Returns JUndefined"

text \<open>
  Claim C1. The claim holds the callback to be called exactly once and never after the
  variable \<^verbatim>\<open>callback\<close> has been cleared. Three runs in which every requestor reports
  exactly once: a fallback whose only requestor succeeds, a race of two whose last report is
  a success, and a sequence whose only requestor fails. In each the action calls the
  callback, sets the variable to \<^verbatim>\<open>undefined\<close>, falls through to the second test
  (\<^verbatim>\<open>number_pending < 1\<close>) and calls the variable again, which throws.
  \<^verbatim>\<open>parallel_action\<close> has a \<^verbatim>\<open>return\<close> at this place.
\<close>

theorem callback_called_after_cleared:
  "observed (trace (Fallback_requestor [Some (JFun 1 0)] JUndefined) reports_nothing
               (JFun 2 9) (JNum 7) [Tick, Done 0 (JNum 1) JUndefined]) =
     Some ([(JNum 1, JUndefined)], [], [JTypeError ''callback is not a function''])
   \<and> observed (trace (Race_requestor [Some (JFun 1 0), Some (JFun 1 1)] JUndefined JUndefined)
               reports_nothing (JFun 2 9) (JNum 7)
               [Tick, Tick, Done 0 JUndefined (JStr ''e''), Done 1 (JNum 1) JUndefined]) =
     Some ([(JNum 1, JUndefined)], [], [JTypeError ''callback is not a function''])
   \<and> observed (trace (Sequence_requestor [Some (JFun 1 0)] JUndefined) reports_nothing
               (JFun 2 9) (JNum 7) [Tick, Done 0 JUndefined (JStr ''e'')]) =
     Some ([(JUndefined, JStr ''e'')], [], [JTypeError ''callback is not a function''])"
  by code_simp

section \<open>Invariants of a parallel run\<close>

text \<open>
  Requestor \<open>j\<close> has completed when it was launched and the number of its callback closure
  has been cleared: it has reported, or it threw at its launch. \<open>has_result\<close> tells whether
  slot \<open>j\<close> of \<^verbatim>\<open>results\<close> is filled, \<open>succeeded\<close> whether it holds a value other than
  \<^verbatim>\<open>undefined\<close>.
\<close>

definition completed :: "state \<Rightarrow> nat \<Rightarrow> bool" where
  "completed s j \<longleftrightarrow> j < next_number s \<and> \<not> number_live s ! j"

definition has_result :: "state \<Rightarrow> nat \<Rightarrow> bool" where
  "has_result s j \<longleftrightarrow> j < length (results s) \<and> results s ! j \<noteq> None"

definition succeeded :: "state \<Rightarrow> nat \<Rightarrow> bool" where
  "succeeded s j \<longleftrightarrow>
     j < length (results s) \<and> results s ! j \<noteq> None \<and> results s ! j \<noteq> Some JUndefined"

definition par_inv :: "config \<Rightarrow> val \<Rightarrow> state \<Rightarrow> bool" where
  "par_inv cfg cb s \<longleftrightarrow>
     (cancel_array s \<noteq> None \<longrightarrow> callback s = cb)
     \<and> (timer_armed s \<longrightarrow> timer_id s \<and> cancel_array s \<noteq> None)
     \<and> uncaught s = []
     \<and> length (number_live s) = length (requestor_array cfg)
     \<and> next_number s \<le> length (requestor_array cfg)
     \<and> (\<forall>j. next_number s \<le> j \<longrightarrow> j < length (requestor_array cfg) \<longrightarrow> \<not> number_live s ! j)
     \<and> number_pending_required_array s =
         int (length (filter (\<lambda>j. \<not> completed s j) [0..<number_required cfg]))
     \<and> length (results s) \<le> length (requestor_array cfg)
     \<and> (\<forall>j < length (requestor_array cfg). has_result s j = completed s j)
     \<and> (cancel_array s \<noteq> None \<longrightarrow>
           (\<forall>j < number_required cfg. completed s j \<longrightarrow> succeeded s j))"

lemma array_set_length: "length (array_set xs i v) = max (length xs) (Suc i)"
  by (simp add: array_set_def)

lemma array_set_nth:
  "j < length (array_set xs i v) \<Longrightarrow>
   array_set xs i v ! j = (if j = i then Some v else if j < length xs then xs ! j else None)"
  by (auto simp: array_set_def nth_append nth_list_update)

lemma count_remove:
  "length (filter (\<lambda>j. P j \<and> j \<noteq> i) [0..<k]) + (if i < k \<and> P i then 1 else 0) =
   length (filter P [0..<k])"
  by (induction k) auto

lemma parallel_action_normal:
  assumes "is_function (callback s)"
  shows "parallel_action cfg a b i s =
     (let s2 = s\<lparr>results := array_set (results s) i a,
                 number_pending := number_pending s - 1,
                 number_pending_required_array :=
                   (if i < number_required cfg then number_pending_required_array s - 1
                    else number_pending_required_array s)\<rparr>
      in if i < number_required cfg \<and> a = JUndefined
         then Inr ((cancel cfg b s2)\<lparr>called := called s @ [(JUndefined, b)],
                                     callback := JUndefined\<rparr>)
         else if number_pending s2 < 1
                 \<or> (option s = JUndefined \<and> number_pending_required_array s2 < 1)
         then Inr ((cancel cfg (make_error ''parallel'' (Some ''Optional.'') JUndefined) s2)
                     \<lparr>called := called s @ [(JArr (results s2), JUndefined)],
                      callback := JUndefined\<rparr>)
         else Inr s2)"
  using assms by (auto simp: parallel_action_def Let_def report_normal)


lemma parallel_action_effect:
  assumes "is_function (callback s)" and "cancel_array s \<noteq> None"
  shows "\<exists>s2. parallel_action cfg a b i s = Inr s2
     \<and> next_number s2 = next_number s \<and> number_live s2 = number_live s
     \<and> uncaught s2 = uncaught s
     \<and> results s2 = array_set (results s) i a
     \<and> number_pending_required_array s2 =
           (if i < number_required cfg then number_pending_required_array s - 1
            else number_pending_required_array s)
     \<and> (if cancel_array s2 = None
         then timer_armed s2 = (timer_armed s \<and> \<not> timer_id s)
         else cancel_array s2 = cancel_array s \<and> callback s2 = callback s
              \<and> timer_armed s2 = timer_armed s \<and> timer_id s2 = timer_id s
              \<and> \<not> (i < number_required cfg \<and> a = JUndefined))"
  using assms(2) unfolding parallel_action_normal [OF assms(1)] Let_def
  by auto

lemma completed_clear:
  assumes "i < length (number_live s)" and "i < next_number s"
  shows "completed (s\<lparr>number_live := (number_live s)[i := False]\<rparr>) j
           \<longleftrightarrow> completed s j \<or> j = i"
  using assms by (auto simp: completed_def nth_list_update)

lemma has_result_array_set:
  "(j < length (array_set xs i v) \<and> array_set xs i v ! j \<noteq> None)
     \<longleftrightarrow> j = i \<or> (j < length xs \<and> xs ! j \<noteq> None)"
  by (auto simp: array_set_def nth_append nth_list_update)

lemma succeeded_array_set:
  "(j < length (array_set xs i v) \<and> array_set xs i v ! j \<noteq> None
      \<and> array_set xs i v ! j \<noteq> Some JUndefined)
     \<longleftrightarrow> (if j = i then v \<noteq> JUndefined
          else j < length xs \<and> xs ! j \<noteq> None \<and> xs ! j \<noteq> Some JUndefined)"
  by (auto simp: array_set_def nth_append nth_list_update)

lemma action_clear_par_inv:
  assumes inv: "par_inv cfg cb s" and cb: "is_function cb"
    and alive: "cancel_array s \<noteq> None"
    and i: "i < length (requestor_array cfg)" and live: "number_live s ! i"
  shows "\<exists>s2. parallel_action cfg a b i s = Inr s2
           \<and> par_inv cfg cb (s2\<lparr>number_live := (number_live s2)[i := False]\<rparr>)"
proof -
  from inv alive cb have "is_function (callback s)"
    by (simp add: par_inv_def)
  from parallel_action_effect [OF this alive, of cfg a b i]
  obtain s2 where act: "parallel_action cfg a b i s = Inr s2"
    and nn: "next_number s2 = next_number s" and nl: "number_live s2 = number_live s"
    and un: "uncaught s2 = uncaught s"
    and rs: "results s2 = array_set (results s) i a"
    and np: "number_pending_required_array s2 =
           (if i < number_required cfg then number_pending_required_array s - 1
            else number_pending_required_array s)"
    and ca: "if cancel_array s2 = None
         then timer_armed s2 = (timer_armed s \<and> \<not> timer_id s)
         else cancel_array s2 = cancel_array s \<and> callback s2 = callback s
              \<and> timer_armed s2 = timer_armed s \<and> timer_id s2 = timer_id s
              \<and> \<not> (i < number_required cfg \<and> a = JUndefined)"
    by blast
  let ?s3 = "s2\<lparr>number_live := (number_live s2)[i := False]\<rparr>"
  from inv have len: "length (number_live s) = length (requestor_array cfg)"
    and nxt: "next_number s \<le> length (requestor_array cfg)"
    and beyond: "\<forall>j. next_number s \<le> j \<longrightarrow> j < length (requestor_array cfg)
                   \<longrightarrow> \<not> number_live s ! j"
    and cnt: "number_pending_required_array s =
         int (length (filter (\<lambda>j. \<not> completed s j) [0..<number_required cfg]))"
    and rlen: "length (results s) \<le> length (requestor_array cfg)"
    and res: "\<forall>j < length (requestor_array cfg). has_result s j = completed s j"
    and ok: "cancel_array s \<noteq> None \<longrightarrow>
           (\<forall>j < number_required cfg. completed s j \<longrightarrow> succeeded s j)"
    and tm: "timer_armed s \<longrightarrow> timer_id s \<and> cancel_array s \<noteq> None"
    and cbs: "cancel_array s \<noteq> None \<longrightarrow> callback s = cb"
    and unc: "uncaught s = []"
    by (simp_all add: par_inv_def)
  from beyond i live have inext: "i < next_number s"
    by (meson not_le)
  have comp: "completed ?s3 j \<longleftrightarrow> completed s j \<or> j = i" for j
    using completed_clear [of i s2 j] len i inext nn nl
    by (simp add: completed_def)
  have not_i: "\<not> completed s i"
    using live by (simp add: completed_def)
  have c1: "cancel_array ?s3 \<noteq> None \<longrightarrow> callback ?s3 = cb"
    using ca cbs by (auto split: if_splits)
  have c2: "timer_armed ?s3 \<longrightarrow> timer_id ?s3 \<and> cancel_array ?s3 \<noteq> None"
    using ca tm by (auto split: if_splits)
  have c3: "uncaught ?s3 = []"
    using un unc by simp
  have c4: "length (number_live ?s3) = length (requestor_array cfg)"
    using nl len by simp
  have c5: "next_number ?s3 \<le> length (requestor_array cfg)"
    using nn nxt by simp
  have c6: "\<forall>j. next_number ?s3 \<le> j \<longrightarrow> j < length (requestor_array cfg)
              \<longrightarrow> \<not> number_live ?s3 ! j"
    using beyond nn nl len i by (auto simp: nth_list_update)
  have "(\<lambda>j. \<not> completed ?s3 j) = (\<lambda>j. \<not> completed s j \<and> j \<noteq> i)"
    using comp by auto
  then have c7: "number_pending_required_array ?s3 =
         int (length (filter (\<lambda>j. \<not> completed ?s3 j) [0..<number_required cfg]))"
    using count_remove [of "\<lambda>j. \<not> completed s j" i "number_required cfg"] not_i np cnt
    by (auto split: if_splits)
  have c8: "length (results ?s3) \<le> length (requestor_array cfg)"
    using rs rlen i by (simp add: array_set_length)
  have c9: "\<forall>j < length (requestor_array cfg). has_result ?s3 j = completed ?s3 j"
    using res rs comp has_result_array_set [of _ "results s" i a]
    by (auto simp: has_result_def)
  have c10: "cancel_array ?s3 \<noteq> None \<longrightarrow>
           (\<forall>j < number_required cfg. completed ?s3 j \<longrightarrow> succeeded ?s3 j)"
  proof (intro impI allI)
    fix j
    assume al: "cancel_array ?s3 \<noteq> None" and j: "j < number_required cfg"
      and cj: "completed ?s3 j"
    from al ca have same: "cancel_array s2 = cancel_array s"
      and good: "\<not> (i < number_required cfg \<and> a = JUndefined)"
      by (auto split: if_splits)
    show "succeeded ?s3 j"
    proof (cases "j = i")
      case True
      with good j show ?thesis
        using succeeded_array_set [of j "results s" i a] rs by (simp add: succeeded_def)
    next
      case False
      with cj comp have "completed s j" by simp
      with ok alive j have "succeeded s j" by simp
      with False show ?thesis
        using succeeded_array_set [of j "results s" i a] rs by (simp add: succeeded_def)
    qed
  qed
  from c1 c2 c3 c4 c5 c6 c7 c8 c9 c10 have "par_inv cfg cb ?s3"
    unfolding par_inv_def by blast
  with act show ?thesis by blast
qed


lemma par_inv_same:
  assumes "par_inv cfg cb s"
    and "(cancel_array s' = None) = (cancel_array s = None)" and "callback s' = callback s"
    and "timer_armed s' = timer_armed s" and "timer_id s' = timer_id s"
    and "uncaught s' = uncaught s" and "number_live s' = number_live s"
    and "next_number s' = next_number s"
    and "number_pending_required_array s' = number_pending_required_array s"
    and "results s' = results s"
  shows "par_inv cfg cb s'"
  using assms by (simp add: par_inv_def completed_def has_result_def succeeded_def)

lemma par_inv_launch:
  assumes "par_inv cfg cb s" and "next_number s < length (requestor_array cfg)"
  shows "par_inv cfg cb
           (s\<lparr>next_number := next_number s + 1,
              number_live := (number_live s)[next_number s := True],
              launched := launched s @ [(next_number s, v)]\<rparr>)"
proof -
  let ?s1 = "s\<lparr>next_number := next_number s + 1,
              number_live := (number_live s)[next_number s := True],
              launched := launched s @ [(next_number s, v)]\<rparr>"
  from assms have len: "length (number_live s) = length (requestor_array cfg)"
    and beyond: "\<forall>j. next_number s \<le> j \<longrightarrow> j < length (requestor_array cfg)
                   \<longrightarrow> \<not> number_live s ! j"
    by (simp_all add: par_inv_def)
  have comp: "completed ?s1 j = completed s j" for j
    using len assms(2) beyond by (auto simp: completed_def nth_list_update less_Suc_eq)
  have res: "has_result ?s1 j = has_result s j" "succeeded ?s1 j = succeeded s j" for j
    by (simp_all add: has_result_def succeeded_def)
  from assms show ?thesis
    unfolding par_inv_def comp res
    by (auto simp: nth_list_update)
qed

lemma start_requestor_par_inv:
  "factory_name cfg = Parallel \<Longrightarrow> is_function cb \<Longrightarrow> par_inv cfg cb s \<Longrightarrow>
     \<exists>s'. start_requestor cfg v s = Inr s' \<and> par_inv cfg cb s'"
proof (induction cfg v s rule: start_requestor.induct)
  case (1 cfg v s)
  note par = "1.prems"(1)
  let ?n = "length (requestor_array cfg)"
  let ?s1 = "s\<lparr>next_number := next_number s + 1,
                number_live := (number_live s)[next_number s := True],
                launched := launched s @ [(next_number s, v)]\<rparr>"
  show ?case
  proof (cases "cancel_array s \<noteq> None \<and> next_number s < ?n")
    case False
    then have "start_requestor cfg v s = Inr s"
      by (subst start_requestor.simps) auto
    with "1.prems" show ?thesis by simp
  next
    case True
    have s1: "par_inv cfg cb ?s1"
      using par_inv_launch [OF "1.prems"(3)] True by simp
    show ?thesis
    proof (cases "call_requestor cfg (requestor_array cfg ! next_number s) v")
      case (Returns r)
      let ?s2 = "?s1\<lparr>cancel_array := map_option (\<lambda>arr. arr[next_number s := r]) (cancel_array s)\<rparr>"
      from True Returns have "start_requestor cfg v s = Inr ?s2"
        by (subst start_requestor.simps) simp
      moreover have "par_inv cfg cb ?s2"
        by (rule par_inv_same [OF s1]) simp_all
      ultimately show ?thesis by simp
    next
      case (Throws e)
      from "1.prems"(3) True have len: "next_number s < length (number_live s)"
        by (simp add: par_inv_def)
      from action_clear_par_inv [OF s1 "1.prems"(2), of "next_number s" JUndefined e] True len
      obtain s2 where act: "parallel_action cfg JUndefined e (next_number s) ?s1 = Inr s2"
        and inv2: "par_inv cfg cb (s2\<lparr>number_live := (number_live s2)[next_number s := False]\<rparr>)"
        by auto
      from act par have act': "action cfg JUndefined e (next_number s) ?s1 = Inr s2"
        by (simp add: action.simps)
      have eq: "start_requestor cfg v s =
                  start_requestor cfg v (s2\<lparr>number_live := (number_live s2)[next_number s := False]\<rparr>)"
        using True Throws act' by (subst start_requestor.simps) simp
      from "1.IH" [OF True Throws act' "1.prems"(1,2) inv2] eq show ?thesis by simp
    qed
  qed
qed

lemma start_requestor_callback_par_inv:
  assumes par: "factory_name cfg = Parallel" and cb: "is_function cb"
    and inv: "par_inv cfg cb s"
  shows "\<exists>s'. start_requestor_callback cfg i a b s = Inr s' \<and> par_inv cfg cb s'"
proof (cases "cancel_array s \<noteq> None \<and> i < length (number_live s) \<and> number_live s ! i")
  case False
  then have "start_requestor_callback cfg i a b s = Inr s"
    by (auto simp: start_requestor_callback_def)
  with inv show ?thesis by simp
next
  case True
  let ?s1 = "s\<lparr>cancel_array := map_option (\<lambda>arr. arr[i := JUndefined]) (cancel_array s)\<rparr>"
  have s1: "par_inv cfg cb ?s1"
    by (rule par_inv_same [OF inv]) simp_all
  from inv True have i: "i < length (requestor_array cfg)"
    by (simp add: par_inv_def)
  from action_clear_par_inv [OF s1 cb _ i, of a b] True
  obtain s2 where act: "parallel_action cfg a b i ?s1 = Inr s2"
    and inv2: "par_inv cfg cb (s2\<lparr>number_live := (number_live s2)[i := False]\<rparr>)"
    by auto
  from act par have "action cfg a b i ?s1 = Inr s2"
    by (simp add: action.simps)
  with True have "start_requestor_callback cfg i a b s =
      start_requestor cfg (if factory_name cfg = Sequence then a else initial_value cfg)
        (s2\<lparr>number_live := (number_live s2)[i := False]\<rparr>)"
    by (simp add: start_requestor_callback_def)
  with start_requestor_par_inv [OF par cb inv2] show ?thesis by simp
qed


lemma par_inv_dead:
  assumes "par_inv cfg cb s"
    and "cancel_array s' = None" and "\<not> timer_armed s'"
    and "uncaught s' = uncaught s" and "number_live s' = number_live s"
    and "next_number s' = next_number s"
    and "number_pending_required_array s' = number_pending_required_array s"
    and "results s' = results s"
  shows "par_inv cfg cb s'"
  using assms by (simp add: par_inv_def completed_def has_result_def succeeded_def)

lemma par_inv_cancel:
  assumes "par_inv cfg cb s"
  shows "par_inv cfg cb (cancel cfg r s)"
  using assms by (intro par_inv_dead [OF assms]) (auto simp: par_inv_def)

lemma parallel_timeout_par_inv:
  assumes inv: "par_inv cfg cb s" and cb: "is_function cb" and armed: "timer_armed s"
  shows "\<exists>s'. parallel_timeout cfg (s\<lparr>timer_armed := False\<rparr>) = Inr s' \<and> par_inv cfg cb s'"
proof -
  let ?t = "s\<lparr>timer_armed := False\<rparr>"
  let ?reason = "make_error ''parallel'' (Some ''Timeout.'') (milliseconds cfg)"
  from inv armed cb have fn: "is_function (callback s)" and alive: "cancel_array s \<noteq> None"
    by (auto simp: par_inv_def)
  show ?thesis
  proof (cases "option s = JBool False")
    case True
    show ?thesis
    proof (cases "number_pending_required_array s < 1")
      case small: True
      let ?r = "(cancel cfg ?reason (?t\<lparr>option := JUndefined\<rparr>))
                  \<lparr>called := called s @ [(JArr (results s), JUndefined)]\<rparr>"
      from True small fn have "parallel_timeout cfg ?t = Inr ?r"
        by (simp add: parallel_timeout_def Let_def invoke_callback_def)
      moreover have "par_inv cfg cb ?r"
        by (rule par_inv_dead [OF inv]) simp_all
      ultimately show ?thesis by simp
    next
      case False
      with True have "parallel_timeout cfg ?t = Inr (?t\<lparr>option := JUndefined\<rparr>)"
        by (simp add: parallel_timeout_def Let_def)
      moreover have "par_inv cfg cb (?t\<lparr>option := JUndefined\<rparr>)"
        using inv by (simp add: par_inv_def completed_def has_result_def succeeded_def)
      ultimately show ?thesis by simp
    qed
  next
    case False
    let ?c = "cancel cfg ?reason ?t"
    let ?call = "if number_pending_required_array s < 1 then (JArr (results s), JUndefined)
                 else (JUndefined, ?reason)"
    let ?r = "?c\<lparr>called := called s @ [?call], callback := JUndefined\<rparr>"
    from False fn have "parallel_timeout cfg ?t = Inr ?r"
      by (simp add: parallel_timeout_def Let_def invoke_callback_def clear_callback_def)
    moreover have "par_inv cfg cb ?r"
      by (rule par_inv_dead [OF inv]) simp_all
    ultimately show ?thesis by simp
  qed
qed

lemma handle_event_par_inv:
  assumes par: "factory_name cfg = Parallel" and cb: "is_function cb"
    and inv: "par_inv cfg cb s"
  shows "\<exists>s'. handle_event cfg ev s = Inr s' \<and> par_inv cfg cb s'"
proof (cases ev)
  case Tick
  show ?thesis
  proof (cases "deferred s > 0")
    case True
    have "par_inv cfg cb (s\<lparr>deferred := deferred s - 1\<rparr>)"
      by (rule par_inv_same [OF inv]) simp_all
    from start_requestor_par_inv [OF par cb this] Tick True show ?thesis by simp
  next
    case False
    with Tick inv show ?thesis by simp
  qed
next
  case (Done i a b)
  with start_requestor_callback_par_inv [OF par cb inv] show ?thesis by simp
next
  case TimerFires
  show ?thesis
  proof (cases "timer_armed s")
    case True
    with parallel_timeout_par_inv [OF inv cb] TimerFires par show ?thesis
      by (simp add: timeout.simps)
  next
    case False
    with TimerFires inv show ?thesis by simp
  qed
next
  case (Cancel r)
  with par_inv_cancel [OF inv] show ?thesis by simp
qed

lemma step_par_inv:
  assumes "factory_name cfg = Parallel" and "is_function cb" and "par_inv cfg cb s"
  shows "par_inv cfg cb (step cfg ev s) \<and> handle_event cfg ev s = Inr (step cfg ev s)"
  using handle_event_par_inv [OF assms, of ev] by (auto simp: step_def)

lemma exec_par_inv:
  assumes "factory_name cfg = Parallel" and "is_function cb" and "par_inv cfg cb s"
  shows "par_inv cfg cb (exec cfg evs s)"
proof (induction evs rule: rev_induct)
  case Nil
  with assms show ?case by (simp add: exec_def)
next
  case (snoc ev evs)
  with step_par_inv [OF assms(1,2)] show ?case by (simp add: exec_snoc)
qed

lemma is_callback_function: "is_callback cb \<Longrightarrow> is_function cb"
  by (cases cb) simp_all

































text \<open>
  Instances: two required requestors and one optional one, each returning a cancel
  function. In the first run the optional requestor succeeds and then a required one
  fails; in the second both required requestors succeed while the optional one is pending.
\<close>

definition returns_handle :: "nat \<Rightarrow> val \<Rightarrow> outcome" where
  "returns_handle r v = Returns (JFun 1 (r + 10))"






section \<open>The false option of parallel\<close>

text \<open>
  Once the option is absent and the timer is off, they stay so: no code arms the timer or
  writes the option after \<^verbatim>\<open>parallel_timeout\<close> has run.
\<close>

definition quiet :: "state \<Rightarrow> state \<Rightarrow> bool" where
  "quiet s s' \<longleftrightarrow> option s' = option s \<and> (timer_armed s' \<longrightarrow> timer_armed s)"






lemma exec_append: "exec cfg (evs @ evs') s = exec cfg evs' (exec cfg evs s)"
  by (simp add: exec_def)









section \<open>A sequence in which every requestor succeeds\<close>

text \<open>The state of a sequence after requestor \<open>k\<close> has been launched and before it reports.\<close>

definition seq_inv :: "config \<Rightarrow> val \<Rightarrow> val list \<Rightarrow> nat \<Rightarrow> state \<Rightarrow> bool" where
  "seq_inv cfg cb vs k s \<longleftrightarrow>
     cancel_array s \<noteq> None
     \<and> next_number s = k + 1
     \<and> length (number_live s) = length (requestor_array cfg)
     \<and> number_live s ! k
     \<and> number_pending s = int (length (requestor_array cfg)) - int k
     \<and> callback s = cb
     \<and> launched s = zip [0..<k + 1] (initial_value cfg # take k vs)
     \<and> called s = [] \<and> uncaught s = []"

text \<open>
  The reports of the first \<open>k\<close> requestors, in order: requestor \<open>i\<close> calls its callback
  with the success value \<open>vs ! i\<close> (and whatever second argument, \<open>es ! i\<close>).
\<close>

definition reports :: "val list \<Rightarrow> val list \<Rightarrow> nat \<Rightarrow> event list" where
  "reports vs es k = map (\<lambda>i. Done i (vs ! i) (es ! i)) [0..<k]"

lemma sequence_requestor_start:
  assumes "sequence_requestor xs ms beh cb iv = Inr (cfg, s0)"
  shows "factory_name cfg = Sequence" and "requestor_array cfg = xs" and "initial_value cfg = iv"
    and "is_function cb"
    and "cancel_array s0 \<noteq> None" and "next_number s0 = 0"
    and "number_live s0 = replicate (length xs) False"
    and "number_pending s0 = int (length xs)" and "callback s0 = cb"
    and "launched s0 = []" and "called s0 = []" and "uncaught s0 = []"
    and "deferred s0 = min 1 (length xs)"
proof -
  let ?cfg = "\<lparr>factory_name = Sequence, requestor_array = xs, initial_value = iv,
               milliseconds = ms, number_required = 0, behaviour = beh\<rparr>"
  from assms have cbk: "is_callback cb"
    by (auto simp: sequence_requestor_def check_callback_def split: if_splits)
  with assms have run: "run ?cfg (JNum 1) (new_state cb (int (length xs)) 0 JUndefined) = Inr s0"
    and cfg: "cfg = ?cfg"
    by (auto simp: sequence_requestor_def check_callback_def Let_def then_do_def
          split: sum.splits)
  from cbk show "is_function cb" by (rule is_callback_function)
  from cfg show "factory_name cfg = Sequence" "requestor_array cfg = xs" "initial_value cfg = iv"
    by simp_all
  from run show "cancel_array s0 \<noteq> None" "next_number s0 = 0"
    "number_live s0 = replicate (length xs) False"
    "number_pending s0 = int (length xs)" "callback s0 = cb"
    "launched s0 = []" "called s0 = []" "uncaught s0 = []" "deferred s0 = min 1 (length xs)"
    by (auto simp: run_def Let_def new_state_def split: val.splits if_splits)
qed

lemma start_requestor_returns:
  assumes "cancel_array s \<noteq> None" and "next_number s < length (requestor_array cfg)"
    and "call_requestor cfg (requestor_array cfg ! next_number s) v = Returns r"
  shows "start_requestor cfg v s =
           Inr (s\<lparr>next_number := next_number s + 1,
                  number_live := (number_live s)[next_number s := True],
                  launched := launched s @ [(next_number s, v)],
                  cancel_array := map_option (\<lambda>arr. arr[next_number s := r]) (cancel_array s)\<rparr>)"
  using assms by (subst start_requestor.simps) simp

lemma seq_first:
  assumes start: "sequence_requestor xs ms beh cb iv = Inr (cfg, s0)"
    and n: "0 < length xs"
    and ret: "call_requestor cfg (xs ! 0) iv = Returns r"
  shows "seq_inv cfg cb vs 0 (step cfg Tick s0)"
proof -
  note st = sequence_requestor_start [OF start]
  let ?s = "s0\<lparr>deferred := deferred s0 - 1\<rparr>"
  from st n have d: "deferred s0 > 0" by simp
  have "start_requestor cfg iv ?s =
           Inr (?s\<lparr>next_number := next_number ?s + 1,
                  number_live := (number_live ?s)[next_number ?s := True],
                  launched := launched ?s @ [(next_number ?s, iv)],
                  cancel_array := map_option (\<lambda>arr. arr[next_number ?s := r]) (cancel_array ?s)\<rparr>)"
    using st n ret by (intro start_requestor_returns) auto
  with d st n show ?thesis
    by (auto simp: step_def seq_inv_def)
qed


lemma sequence_action_success:
  assumes "is_function (callback s)" and "success \<noteq> JUndefined"
  shows "sequence_action cfg success error i s =
     (if number_pending s - 1 < 1
      then Inr ((cancel cfg JUndefined (s\<lparr>number_pending := number_pending s - 1\<rparr>))
                  \<lparr>called := called s @ [(success, JUndefined)], callback := JUndefined\<rparr>)
      else Inr (s\<lparr>number_pending := number_pending s - 1\<rparr>))"
proof -
  from assms(1) have "callback s \<noteq> JUndefined" by auto
  with assms show ?thesis
    by (simp add: sequence_action_def Let_def report_normal)
qed

lemma seq_next:
  assumes seq: "factory_name cfg = Sequence" and cb: "is_function cb"
    and inv: "seq_inv cfg cb vs k s" and more: "k + 1 < length (requestor_array cfg)"
    and k: "k < length vs" and ok: "vs ! k \<noteq> JUndefined"
    and ret: "call_requestor cfg (requestor_array cfg ! (k + 1)) (vs ! k) = Returns r"
  shows "seq_inv cfg cb vs (k + 1) (step cfg (Done k (vs ! k) e) s)"
proof -
  let ?s1 = "s\<lparr>cancel_array := map_option (\<lambda>arr. arr[k := JUndefined]) (cancel_array s)\<rparr>"
  let ?s2 = "?s1\<lparr>number_pending := number_pending s - 1\<rparr>"
  let ?s3 = "?s2\<lparr>number_live := (number_live s)[k := False]\<rparr>"
  from inv have alive: "cancel_array s \<noteq> None" and nxt: "next_number s = k + 1"
    and len: "length (number_live s) = length (requestor_array cfg)" and live: "number_live s ! k"
    and np: "number_pending s = int (length (requestor_array cfg)) - int k"
    and cbs: "callback s = cb"
    and la: "launched s = zip [0..<k + 1] (initial_value cfg # take k vs)"
    and quiet: "called s = []" "uncaught s = []"
    by (simp_all add: seq_inv_def)
  from cb cbs have fn: "is_function (callback ?s1)" by simp
  from np more have big: "\<not> number_pending s - 1 < 1" by simp
  have act: "action cfg (vs ! k) e k ?s1 = Inr ?s2"
    using seq big by (simp add: action.simps sequence_action_success [OF fn ok])
  have launch: "start_requestor cfg (vs ! k) ?s3 =
           Inr (?s3\<lparr>next_number := next_number ?s3 + 1,
                  number_live := (number_live ?s3)[next_number ?s3 := True],
                  launched := launched ?s3 @ [(next_number ?s3, vs ! k)],
                  cancel_array := map_option (\<lambda>arr. arr[next_number ?s3 := r]) (cancel_array ?s3)\<rparr>)"
    using alive nxt more ret by (intro start_requestor_returns) auto
  have step: "step cfg (Done k (vs ! k) e) s =
           ?s3\<lparr>next_number := next_number ?s3 + 1,
                  number_live := (number_live ?s3)[next_number ?s3 := True],
                  launched := launched ?s3 @ [(next_number ?s3, vs ! k)],
                  cancel_array := map_option (\<lambda>arr. arr[next_number ?s3 := r]) (cancel_array ?s3)\<rparr>"
    using alive live len more act launch seq
    by (simp add: step_def start_requestor_callback_def)
  have zip: "zip [0..<k + 1] (initial_value cfg # take k vs) @ [(k + 1, vs ! k)] =
             zip [0..<k + 1 + 1] (initial_value cfg # take (k + 1) vs)"
  proof -
    from k have "length [0..<k + 1] = length (initial_value cfg # take k vs)" by simp
    then have "zip ([0..<k + 1] @ [k + 1]) ((initial_value cfg # take k vs) @ [vs ! k]) =
               zip [0..<k + 1] (initial_value cfg # take k vs) @ zip [k + 1] [vs ! k]"
      by (rule zip_append)
    moreover have "[0..<k + 1 + 1] = [0..<k + 1] @ [k + 1]" by simp
    moreover have "initial_value cfg # take (k + 1) vs = (initial_value cfg # take k vs) @ [vs ! k]"
      using k by (simp add: take_Suc_conv_app_nth)
    ultimately show ?thesis by simp
  qed
  show ?thesis
    unfolding step using alive nxt len more np cbs la quiet zip
    by (simp add: seq_inv_def)
qed

lemma seq_last:
  assumes seq: "factory_name cfg = Sequence" and cb: "is_function cb"
    and inv: "seq_inv cfg cb vs k s" and last: "k + 1 = length (requestor_array cfg)"
    and ok: "vs ! k \<noteq> JUndefined"
  shows "launched (step cfg (Done k (vs ! k) e) s) = zip [0..<k + 1] (initial_value cfg # take k vs)
       \<and> called (step cfg (Done k (vs ! k) e) s) = [(vs ! k, JUndefined)]
       \<and> uncaught (step cfg (Done k (vs ! k) e) s) = []
       \<and> cancel_array (step cfg (Done k (vs ! k) e) s) = None"
proof -
  let ?s1 = "s\<lparr>cancel_array := map_option (\<lambda>arr. arr[k := JUndefined]) (cancel_array s)\<rparr>"
  let ?s2 = "(cancel cfg JUndefined (?s1\<lparr>number_pending := number_pending s - 1\<rparr>))
                  \<lparr>called := called s @ [(vs ! k, JUndefined)], callback := JUndefined\<rparr>"
  from inv have alive: "cancel_array s \<noteq> None"
    and len: "length (number_live s) = length (requestor_array cfg)" and live: "number_live s ! k"
    and np: "number_pending s = int (length (requestor_array cfg)) - int k"
    and cbs: "callback s = cb"
    and la: "launched s = zip [0..<k + 1] (initial_value cfg # take k vs)"
    and quiet: "called s = []" "uncaught s = []"
    by (simp_all add: seq_inv_def)
  from cb cbs have fn: "is_function (callback ?s1)" by simp
  from np last have small: "number_pending s - 1 < 1" by simp
  have act: "action cfg (vs ! k) e k ?s1 = Inr ?s2"
    using seq small by (simp add: action.simps sequence_action_success [OF fn ok])
  have "step cfg (Done k (vs ! k) e) s = ?s2\<lparr>number_live := (number_live s)[k := False]\<rparr>"
    using alive live len last act
    by (simp add: step_def start_requestor_callback_def)
  with la quiet show ?thesis by simp
qed


lemma reports_Suc: "reports vs es (Suc k) = reports vs es k @ [Done k (vs ! k) (es ! k)]"
  by (simp add: reports_def)

lemma seq_reached:
  assumes start: "sequence_requestor xs ms beh cb iv = Inr (cfg, s0)"
    and vs: "length vs = length xs" "\<forall>i < length xs. vs ! i \<noteq> JUndefined"
    and returns: "\<forall>i < length xs. \<forall>v. \<exists>h. call_requestor cfg (xs ! i) v = Returns h"
  shows "k < length xs \<Longrightarrow> seq_inv cfg cb vs k (exec cfg (Tick # reports vs es k) s0)"
proof (induction k)
  case 0
  from returns 0 obtain r where "call_requestor cfg (xs ! 0) iv = Returns r" by blast
  from seq_first [OF start 0 this] show ?case
    by (simp add: exec_def reports_def)
next
  case (Suc k)
  note st = sequence_requestor_start [OF start]
  let ?s = "exec cfg (Tick # reports vs es k) s0"
  from Suc have inv: "seq_inv cfg cb vs k ?s" by simp
  from returns Suc.prems obtain r
    where ret: "call_requestor cfg (requestor_array cfg ! (k + 1)) (vs ! k) = Returns r"
    using st(2) by auto
  have "seq_inv cfg cb vs (k + 1) (step cfg (Done k (vs ! k) (es ! k)) ?s)"
    using Suc.prems vs st(2)
    by (intro seq_next [OF st(1) st(4) inv _ _ _ ret]) auto
  moreover have "exec cfg (Tick # reports vs es (Suc k)) s0 =
                   step cfg (Done k (vs ! k) (es ! k)) ?s"
    by (simp add: reports_Suc exec_def)
  ultimately show ?case by simp
qed

text \<open>
  Claim C2. A sequence made by the factory over the requestors \<open>xs\<close>, none of which throws
  when it is called; the deferred launch runs and then each requestor in turn reports a
  success value \<open>vs ! i\<close> other than \<^verbatim>\<open>undefined\<close>. The requestors are called in order, the
  first with the initial value and each later one with the success value of the one before
  it; the caller's callback is called once, with the success value of the last requestor;
  and no exception escapes.
\<close>

theorem sequence_threads_values:
  assumes factory: "sequence (JArr xs) ms = Inr f"
    and start: "invoke f beh cb iv = Inr (cfg, s0)"
    and vs: "length vs = length xs" "\<forall>i < length xs. vs ! i \<noteq> JUndefined"
    and returns: "\<forall>i < length xs. \<forall>v. \<exists>h. call_requestor cfg (xs ! i) v = Returns h"
    and s: "s = exec cfg (Tick # reports vs es (length xs)) s0"
  shows "launched s = zip [0..<length xs] (iv # butlast vs)
       \<and> called s = [(last vs, JUndefined)]
       \<and> uncaught s = []"
proof -
  from factory have f: "f = Sequence_requestor xs ms" and n: "0 < length xs"
    by (auto simp: sequence_def check_requestor_array_def then_do_def split: if_splits)
  with start have start': "sequence_requestor xs ms beh cb iv = Inr (cfg, s0)"
    by simp
  note st = sequence_requestor_start [OF start']
  define k where "k = length xs - 1"
  with n have k: "k < length xs" "k + 1 = length xs" "Suc k = length xs" by simp_all
  let ?t = "exec cfg (Tick # reports vs es k) s0"
  have inv: "seq_inv cfg cb vs k ?t"
    by (rule seq_reached [OF start' vs returns k(1)])
  have "s = step cfg (Done k (vs ! k) (es ! k)) ?t"
    unfolding s k(3) [symmetric] by (simp add: reports_Suc exec_def)
  with seq_last [OF st(1) st(4) inv, of "es ! k"] k vs st(2,3)
  have "launched s = zip [0..<k + 1] (iv # take k vs)"
    and "called s = [(vs ! k, JUndefined)]" and "uncaught s = []"
    by simp_all
  moreover from vs n have "vs \<noteq> []" by auto
  with vs have "take k vs = butlast vs" and "vs ! k = last vs"
    by (simp_all add: butlast_conv_take last_conv_nth k_def)
  ultimately show ?thesis using k by simp
qed


text \<open>An instance: three requestors reporting \<^verbatim>\<open>"a"\<close>, \<^verbatim>\<open>"b"\<close> and \<^verbatim>\<open>"c"\<close>.\<close>

definition sequence_example :: config where
  "sequence_example =
     \<lparr>factory_name = Sequence,
      requestor_array = [Some (JFun 1 0), Some (JFun 2 1), Some (JFun 1 2)],
      initial_value = JNum 7, milliseconds = JUndefined, number_required = 0,
      behaviour = returns_handle\<rparr>"

definition sequence_example_start :: state where
  "sequence_example_start =
     (new_state (JFun 2 9) 3 0 JUndefined)
       \<lparr>cancel_array := Some [JUndefined, JUndefined, JUndefined],
        number_live := [False, False, False], deferred := 1\<rparr>"

theorem sequence_threads_values_witness:
  "sequence (JArr [Some (JFun 1 0), Some (JFun 2 1), Some (JFun 1 2)]) JUndefined =
     Inr (Sequence_requestor [Some (JFun 1 0), Some (JFun 2 1), Some (JFun 1 2)] JUndefined)
   \<and> invoke (Sequence_requestor [Some (JFun 1 0), Some (JFun 2 1), Some (JFun 1 2)] JUndefined)
        returns_handle (JFun 2 9) (JNum 7) = Inr (sequence_example, sequence_example_start)
   \<and> length [JStr ''a'', JStr ''b'', JStr ''c''] =
        length [Some (JFun 1 0), Some (JFun 2 1), Some (JFun 1 2)]
   \<and> launched (exec sequence_example
        (Tick # reports [JStr ''a'', JStr ''b'', JStr ''c''] [JUndefined, JUndefined, JUndefined]
                  (length [Some (JFun 1 0), Some (JFun 2 1), Some (JFun 1 2)]))
        sequence_example_start) = [(0, JNum 7), (1, JStr ''a''), (2, JStr ''b'')]
   \<and> called (exec sequence_example
        (Tick # reports [JStr ''a'', JStr ''b'', JStr ''c''] [JUndefined, JUndefined, JUndefined]
                  (length [Some (JFun 1 0), Some (JFun 2 1), Some (JFun 1 2)]))
        sequence_example_start) = [(JStr ''c'', JUndefined)]"
proof -
  let ?xs = "[Some (JFun 1 0), Some (JFun 2 1), Some (JFun 1 2)]"
  let ?vs = "[JStr ''a'', JStr ''b'', JStr ''c'']"
  have h1: "sequence (JArr ?xs) JUndefined = Inr (Sequence_requestor ?xs JUndefined)"
    by (simp add: sequence_def check_requestor_array_def)
  have h2: "invoke (Sequence_requestor ?xs JUndefined) returns_handle (JFun 2 9) (JNum 7) =
              Inr (sequence_example, sequence_example_start)"
    by (simp add: sequence_requestor_def check_callback_def run_def new_state_def
          sequence_example_def sequence_example_start_def numeral_3_eq_3)
  have h3: "length ?vs = length ?xs" by simp
  have h4: "\<forall>i < length ?xs. ?vs ! i \<noteq> JUndefined"
    by (auto simp: less_Suc_eq)
  have h5: "\<forall>i < length ?xs. \<forall>v. \<exists>h. call_requestor sequence_example (?xs ! i) v = Returns h"
    by (auto simp: less_Suc_eq sequence_example_def returns_handle_def)
  note t = sequence_threads_values [OF h1 h2 h3 h4 h5 refl,
             of "[JUndefined, JUndefined, JUndefined]"]
  have e: "zip [0..<length ?xs] (JNum 7 # butlast ?vs) =
             [(0, JNum 7), (1, JStr ''a''), (2, JStr ''b'')]"
    by code_simp
  from t e have c1: "launched (exec sequence_example
        (Tick # reports ?vs [JUndefined, JUndefined, JUndefined] (length ?xs))
        sequence_example_start) = [(0, JNum 7), (1, JStr ''a''), (2, JStr ''b'')]"
    by simp
  from t have c2: "called (exec sequence_example
        (Tick # reports ?vs [JUndefined, JUndefined, JUndefined] (length ?xs))
        sequence_example_start) = [(JStr ''c'', JUndefined)]"
    by simp
  show ?thesis
    by (intro conjI h1 h2 h3 c1 c2)
qed

end
